theory Spec2Isabelle
  imports Main "HOL-Library.Word"
begin

section \<open>Data model\<close>

text \<open>
  The exceptions of the framework that the orchestration code raises or lets through.
  \<open>ModuleException\<close> stands for whatever a module's own code (constructor or hook)
  throws; \<open>InvalidDetectorError\<close> and \<open>InvalidValueError\<close> are raised by the geometry
  manager and by the configuration's conversions; \<open>DoubleDeliveryError\<close> is the spec's
  name for the messenger's error.
\<close>

datatype Error =
    DynamicLibraryError string
  | AmbiguousInstantiationError string
  | InvalidModuleStateException string
  | InvalidDetectorError string
  | InvalidValueError string
  | ModuleException string
  | DoubleDeliveryError

text \<open>
  Modelled from the spec: class \<open>Configuration\<close> is not among the sources. A section is a
  name and a mapping of string keys to string/array values; a value is kept as the array of
  its items. \<open>has\<close> and \<open>getArray\<close> are the two accessors \<open>ModuleManager\<close> uses on a
  section.
\<close>

record Configuration =
  conf_name :: string
  conf_values :: "string \<rightharpoonup> string list"

definition has :: "Configuration \<Rightarrow> string \<Rightarrow> bool" where
  "has conf k = (conf_values conf k \<noteq> None)"

definition getArray :: "Configuration \<Rightarrow> string \<Rightarrow> string list" where
  "getArray conf k = (case conf_values conf k of None \<Rightarrow> [] | Some vs \<Rightarrow> vs)"

text \<open>
  \<open>get<T>(key, default)\<close>: the default when the key is absent, otherwise the conversion
  of the stored value, which may fail. The conversion itself is a parameter.
\<close>

definition get_default ::
  "(string list \<Rightarrow> Error + 'a) \<Rightarrow> Configuration \<Rightarrow> string \<Rightarrow> 'a \<Rightarrow> Error + 'a" where
  "get_default from_string conf k d =
     (case conf_values conf k of None \<Rightarrow> Inr d | Some vs \<Rightarrow> from_string vs)"

text \<open>
  A detector as the module manager sees it: the address of the object (what
  \<open>shared_ptr::get\<close> returns; never the null pointer \<open>0\<close> for a live detector), its name
  and its type.
\<close>

record Detector =
  det_addr :: nat
  det_name :: string
  det_type :: string

text \<open>
  Modelled from the spec: class \<open>GeometryManager\<close> is not among the sources. It holds the
  globally known targets; a target is looked up by name (a name that no detector has is an
  error), all targets of a type are selected, or all targets are listed.
\<close>

definition getDetector :: "Detector list \<Rightarrow> string \<Rightarrow> Error + Detector" where
  "getDetector geo n =
     (case find (\<lambda>d. det_name d = n) geo of
        None \<Rightarrow> Inl (InvalidDetectorError n)
      | Some d \<Rightarrow> Inr d)"

definition getDetectorsByType :: "Detector list \<Rightarrow> string \<Rightarrow> Detector list" where
  "getDetectorsByType geo t = filter (\<lambda>d. det_type d = t) geo"

definition getDetectors :: "Detector list \<Rightarrow> Detector list" where
  "getDetectors geo = geo"

text \<open>
  A module object: \<open>impl\<close> stands for the opaque user code and its state,
  \<open>module_detector\<close> is the detector pointer the base-class constructor stored (what
  \<open>getDetector().get()\<close> returns; \<open>0\<close> is the null pointer of a module without detector).
\<close>

record Module =
  impl :: nat
  module_detector :: nat

text \<open>
  \<open>ModuleIdentifier(name, identifier, priority)\<close>. The class is declared outside the
  sources; by the spec the key for uniqueness (the order of \<open>id_to_module\<close>) is the pair
  of name and target, the priority is not part of it.
\<close>

record ModuleIdentifier =
  getName :: string
  getIdentifier :: string
  getPriority :: int

definition key :: "ModuleIdentifier \<Rightarrow> string \<times> string" where
  "key i = (getName i, getIdentifier i)"

text \<open>
  A dynamic library as \<open>dlsym\<close> shows it: the symbol \<open>unique\<close> and the symbol
  \<open>generator\<close>, each possibly missing. The generator is called with the section and, for a
  per-detector module, the detector; it runs the module's constructor, which may throw.
\<close>

record Library =
  sym_unique :: "bool option"
  sym_generator :: "(Configuration \<Rightarrow> Detector option \<Rightarrow> Error + Module) option"

text \<open>
  What the process finds around it: the value of \<open>ALLPIX_DIR\<close>, the build's
  \<open>SHARED_LIBRARY_SUFFIX\<close>, the libraries \<open>dlopen\<close> can open (by path) and the
  detectors of the geometry manager.
\<close>

record Env =
  allpix_dir :: string
  shared_library_suffix :: string
  dlopen :: "string \<rightharpoonup> Library"
  geo_manager :: "Detector list"

text \<open>
  The state of \<open>ModuleManager\<close>; the members are written without the underscore that
  ends their names in the source. \<open>modules\<close> is the list of live instances in insertion
  order. Each instance is kept together with the identifier that \<open>module_to_id\<close> gives
  for it, and \<open>id_to_module.find\<close> is the search of this list by key: the two maps of the
  source index the instances of the list and are updated together with it, in the same
  statements. \<open>dlopen_calls\<close> is not a member: it records the paths \<open>dlopen\<close> has been
  called with, oldest first, so that the calls to the dynamic linker can be counted.
\<close>

record ModuleManager =
  modules :: "(ModuleIdentifier \<times> Module) list"
  loadedLibraries :: "string \<rightharpoonup> Library"
  global_config :: Configuration
  dlopen_calls :: "string list"

definition ModuleManager_new :: ModuleManager where
  "ModuleManager_new =
     \<lparr>modules = [], loadedLibraries = Map.empty,
      global_config = \<lparr>conf_name = [], conf_values = Map.empty\<rparr>,
      dlopen_calls = []\<rparr>"

section \<open>Creating module instances\<close>

definition check_module_detector :: "string \<Rightarrow> Module \<Rightarrow> nat \<Rightarrow> Error + unit" where
  "check_module_detector module_name module detector =
     (if module_detector module \<noteq> detector
      then Inl (InvalidModuleStateException
             (''Module '' @ module_name @
              '' does not call the correct base Module constructor: the provided detector should be forwarded''))
      else Inr ())"

text \<open>
  The block repeated three times in \<open>createModulesPerDetector\<close>: build the identifier
  from the detector's name and the priority, call the generator with the detector, and
  check that the instance reports this detector.
\<close>

definition instantiate ::
  "Configuration \<Rightarrow> (Configuration \<Rightarrow> Detector option \<Rightarrow> Error + Module) \<Rightarrow> Detector \<Rightarrow> int
    \<Rightarrow> Error + (ModuleIdentifier \<times> Module)" where
  "instantiate conf generator det prio =
     (let identifier = \<lparr>getName = conf_name conf, getIdentifier = det_name det,
                        getPriority = prio\<rparr>
      in case generator conf (Some det) of
           Inl e \<Rightarrow> Inl e
         | Inr module \<Rightarrow>
             (case check_module_detector (getName identifier) module (det_addr det) of
                Inl e \<Rightarrow> Inl e
              | Inr _ \<Rightarrow> Inr (identifier, module)))"

text \<open>The loop over the \<open>name\<close> array (priority 1).\<close>

fun create_by_name ::
  "Detector list \<Rightarrow> Configuration \<Rightarrow> (Configuration \<Rightarrow> Detector option \<Rightarrow> Error + Module)
    \<Rightarrow> string list \<Rightarrow> Error + (ModuleIdentifier \<times> Module) list" where
  "create_by_name geo conf generator [] = Inr []"
| "create_by_name geo conf generator (n # ns) =
     (case getDetector geo n of
        Inl e \<Rightarrow> Inl e
      | Inr det \<Rightarrow>
          (case instantiate conf generator det 1 of
             Inl e \<Rightarrow> Inl e
           | Inr im \<Rightarrow>
               (case create_by_name geo conf generator ns of
                  Inl e \<Rightarrow> Inl e
                | Inr rest \<Rightarrow> Inr (im # rest))))"

text \<open>
  The inner loop over the detectors of one type (priority 2), skipping the detectors whose
  name is in \<open>moduleNames\<close>; the same loop with no name to skip and priority 0 creates the
  instances for all detectors.
\<close>

fun create_for_detectors ::
  "Configuration \<Rightarrow> (Configuration \<Rightarrow> Detector option \<Rightarrow> Error + Module) \<Rightarrow> string list \<Rightarrow> int
    \<Rightarrow> Detector list \<Rightarrow> Error + (ModuleIdentifier \<times> Module) list" where
  "create_for_detectors conf generator moduleNames prio [] = Inr []"
| "create_for_detectors conf generator moduleNames prio (det # dets) =
     (if det_name det \<in> set moduleNames
      then create_for_detectors conf generator moduleNames prio dets
      else (case instantiate conf generator det prio of
              Inl e \<Rightarrow> Inl e
            | Inr im \<Rightarrow>
                (case create_for_detectors conf generator moduleNames prio dets of
                   Inl e \<Rightarrow> Inl e
                 | Inr rest \<Rightarrow> Inr (im # rest))))"

text \<open>The loop over the \<open>type\<close> array.\<close>

fun create_by_type ::
  "Detector list \<Rightarrow> Configuration \<Rightarrow> (Configuration \<Rightarrow> Detector option \<Rightarrow> Error + Module)
    \<Rightarrow> string list \<Rightarrow> string list \<Rightarrow> Error + (ModuleIdentifier \<times> Module) list" where
  "create_by_type geo conf generator moduleNames [] = Inr []"
| "create_by_type geo conf generator moduleNames (t # ts) =
     (case create_for_detectors conf generator moduleNames 2 (getDetectorsByType geo t) of
        Inl e \<Rightarrow> Inl e
      | Inr ms \<Rightarrow>
          (case create_by_type geo conf generator moduleNames ts of
             Inl e \<Rightarrow> Inl e
           | Inr rest \<Rightarrow> Inr (ms @ rest)))"

definition createModulesPerDetector ::
  "Env \<Rightarrow> Configuration \<Rightarrow> Library \<Rightarrow> Error + (ModuleIdentifier \<times> Module) list" where
  "createModulesPerDetector env conf library =
     (let moduleName = conf_name conf in
      case sym_generator library of
        None \<Rightarrow> Inl (DynamicLibraryError moduleName)
      | Some generator \<Rightarrow>
          (case (if has conf ''name''
                 then create_by_name (geo_manager env) conf generator (getArray conf ''name'')
                 else Inr []) of
             Inl e \<Rightarrow> Inl e
           | Inr by_name \<Rightarrow>
               (let moduleNames = (if has conf ''name'' then getArray conf ''name'' else []) in
                case (if has conf ''type''
                      then create_by_type (geo_manager env) conf generator moduleNames
                             (getArray conf ''type'')
                      else Inr []) of
                  Inl e \<Rightarrow> Inl e
                | Inr by_type \<Rightarrow>
                    (case (if \<not> has conf ''type'' \<and> \<not> has conf ''name''
                           then create_for_detectors conf generator [] 0
                                  (getDetectors (geo_manager env))
                           else Inr []) of
                       Inl e \<Rightarrow> Inl e
                     | Inr for_all \<Rightarrow> Inr (by_name @ by_type @ for_all)))))"

definition createModules ::
  "Env \<Rightarrow> Configuration \<Rightarrow> Library \<Rightarrow> Error + (ModuleIdentifier \<times> Module) list" where
  "createModules env conf library =
     (let moduleName = conf_name conf;
          identifier = \<lparr>getName = moduleName, getIdentifier = [], getPriority = 0\<rparr>
      in case sym_generator library of
           None \<Rightarrow> Inl (DynamicLibraryError moduleName)
         | Some generator \<Rightarrow>
             (case generator conf None of
                Inl e \<Rightarrow> Inl e
              | Inr module \<Rightarrow> Inr [(identifier, module)]))"

section \<open>Loading\<close>

text \<open>
  \<open>modules_.erase(iter->second)\<close> with the two map erasures: the instance found under the
  key leaves the registry.
\<close>

fun erase :: "string \<times> string \<Rightarrow> (ModuleIdentifier \<times> Module) list
    \<Rightarrow> (ModuleIdentifier \<times> Module) list" where
  "erase k [] = []"
| "erase k (im # ims) = (if key (fst im) = k then ims else im # erase k ims)"

text \<open>
  The body of the loop ``decide which order to place modules in'' for one produced pair.
\<close>

definition place_module ::
  "Configuration \<Rightarrow> (ModuleIdentifier \<times> Module) \<Rightarrow> (ModuleIdentifier \<times> Module) list
    \<Rightarrow> Error + (ModuleIdentifier \<times> Module) list" where
  "place_module conf id_mod mods =
     (let module = snd id_mod; identifier = fst id_mod in
      case find (\<lambda>im. key (fst im) = key identifier) mods of
        Some iter \<Rightarrow>
          (if getPriority (fst iter) > getPriority identifier
           then Inr (erase (key (fst iter)) mods @ [(identifier, module)])
           else if getPriority (fst iter) = getPriority identifier
           then Inl (AmbiguousInstantiationError (conf_name conf))
           else Inr mods)
      | None \<Rightarrow> Inr (mods @ [(identifier, module)]))"

fun place_modules ::
  "Configuration \<Rightarrow> (ModuleIdentifier \<times> Module) list \<Rightarrow> (ModuleIdentifier \<times> Module) list
    \<Rightarrow> Error + (ModuleIdentifier \<times> Module) list" where
  "place_modules conf [] mods = Inr mods"
| "place_modules conf (id_mod # rest) mods =
     (case place_module conf id_mod mods of
        Inl e \<Rightarrow> Inl e
      | Inr mods' \<Rightarrow> place_modules conf rest mods')"

definition libName_of :: "Env \<Rightarrow> Configuration \<Rightarrow> string" where
  "libName_of env conf = ''libAllpixModule'' @ conf_name conf @ shared_library_suffix env"

definition fullLibPath_of :: "Env \<Rightarrow> Configuration \<Rightarrow> string" where
  "fullLibPath_of env conf = (allpix_dir env @ ''/lib/'') @ libName_of env conf"

text \<open>``If library is not loaded then load it'': the state after, or the exception.\<close>

definition load_library :: "Env \<Rightarrow> Configuration \<Rightarrow> ModuleManager \<Rightarrow> Error + ModuleManager" where
  "load_library env conf mm =
     (let libName = libName_of env conf; fullLibPath = fullLibPath_of env conf in
      if loadedLibraries mm libName = None
      then (case dlopen env fullLibPath of
              None \<Rightarrow> Inl (DynamicLibraryError (conf_name conf))
            | Some lib \<Rightarrow>
                Inr (mm\<lparr>loadedLibraries := (loadedLibraries mm)(libName \<mapsto> lib),
                        dlopen_calls := dlopen_calls mm @ [fullLibPath]\<rparr>))
      else Inr mm)"

text \<open>
  The module list a section yields once its library is in \<open>loadedLibraries\<close>: the probe of
  \<open>unique\<close>, then \<open>createModules\<close> or \<open>createModulesPerDetector\<close>.
\<close>

definition create_from_library ::
  "Env \<Rightarrow> Configuration \<Rightarrow> Library \<Rightarrow> Error + (ModuleIdentifier \<times> Module) list" where
  "create_from_library env conf library =
     (case sym_unique library of
        None \<Rightarrow> Inl (DynamicLibraryError (conf_name conf))
      | Some unique \<Rightarrow>
          (if unique then createModules env conf library
           else createModulesPerDetector env conf library))"

text \<open>
  The body of the loop over the configurations, for one section. After \<open>load_library\<close>
  the library is in \<open>loadedLibraries\<close>, so the lookup \<open>loadedLibraries_[libName]\<close> finds
  it; the branch for a missing entry is never taken.
\<close>

definition load_section :: "Env \<Rightarrow> Configuration \<Rightarrow> ModuleManager \<Rightarrow> Error + ModuleManager" where
  "load_section env conf mm =
     (if conf_name conf = [] then Inr mm
      else (case load_library env conf mm of
              Inl e \<Rightarrow> Inl e
            | Inr mm1 \<Rightarrow>
                (case loadedLibraries mm1 (libName_of env conf) of
                   None \<Rightarrow> Inl (DynamicLibraryError (conf_name conf))
                 | Some library \<Rightarrow>
                     (case create_from_library env conf library of
                        Inl e \<Rightarrow> Inl e
                      | Inr mod_list \<Rightarrow>
                          (case place_modules conf mod_list (modules mm1) of
                             Inl e \<Rightarrow> Inl e
                           | Inr mods \<Rightarrow> Inr (mm1\<lparr>modules := mods\<rparr>))))))"

fun load :: "Env \<Rightarrow> Configuration list \<Rightarrow> ModuleManager \<Rightarrow> Error + ModuleManager" where
  "load env [] mm = Inr mm"
| "load env (conf # configs) mm =
     (case load_section env conf mm of
        Inl e \<Rightarrow> Inl e
      | Inr mm' \<Rightarrow> load env configs mm')"

section \<open>Lifecycle\<close>

datatype Phase = Init | Run | Finalize

text \<open>
  What a hook can see and change: the section of the logger (\<open>Log::getSection\<close>, a
  process-wide value) and everything else (\<open>user\<close>). A hook is the module's own code:
  it returns the changed world and, when it throws, the exception.
\<close>

record 'u World =
  log_section :: string
  user :: 'u

type_synonym 'u hooks = "Phase \<Rightarrow> Module \<Rightarrow> 'u World \<Rightarrow> Error option \<times> 'u World"

fun section_prefix :: "Phase \<Rightarrow> string" where
  "section_prefix Init = ''I:''"
| "section_prefix Run = ''R:''"
| "section_prefix Finalize = ''F:''"

text \<open>
  The body shared by the three loops over \<open>modules\<close>: remember the section, set the
  module's section header, call the hook, reset the header. An exception of the hook leaves
  the body at the call.
\<close>

definition call_module ::
  "'u hooks \<Rightarrow> Phase \<Rightarrow> (ModuleIdentifier \<times> Module) \<Rightarrow> 'u World \<Rightarrow> Error option \<times> 'u World" where
  "call_module hook phase md w =
     (let old_section_name = log_section w;
          section_name = section_prefix phase @ getName (fst md)
      in case hook phase (snd md) (w\<lparr>log_section := section_name\<rparr>) of
           (Some e, w') \<Rightarrow> (Some e, w')
         | (None, w') \<Rightarrow> (None, w'\<lparr>log_section := old_section_name\<rparr>))"

fun for_modules ::
  "'u hooks \<Rightarrow> Phase \<Rightarrow> (ModuleIdentifier \<times> Module) list \<Rightarrow> 'u World \<Rightarrow> Error option \<times> 'u World" where
  "for_modules hook phase [] w = (None, w)"
| "for_modules hook phase (md # mods) w =
     (case call_module hook phase md w of
        (Some e, w') \<Rightarrow> (Some e, w')
      | (None, w') \<Rightarrow> for_modules hook phase mods w')"

definition init :: "'u hooks \<Rightarrow> ModuleManager \<Rightarrow> 'u World \<Rightarrow> Error option \<times> 'u World" where
  "init hook mm w = for_modules hook Init (modules mm) w"

text \<open>
  The loop over the events, \<open>for(unsigned int i = 0; i < number_of_events; ++i)\<close>.
\<close>

lemma unat_next_event:
  fixes i :: "32 word"
  assumes "i < n"
  shows "unat (i + 1) = unat i + 1"
proof -
  have "i \<noteq> - 1"
    using assms by (metis word_order.extremum_strict)
  then have "1 + i \<noteq> 0"
    by (metis add_eq_0_iff)
  then show ?thesis
    by (simp add: unatSuc add.commute)
qed

function run_events ::
  "'u hooks \<Rightarrow> (ModuleIdentifier \<times> Module) list \<Rightarrow> 32 word \<Rightarrow> 32 word \<Rightarrow> 'u World
    \<Rightarrow> Error option \<times> 'u World" where
  "run_events hook mods number_of_events i w =
     (if i < number_of_events
      then (case for_modules hook Run mods w of
              (Some e, w') \<Rightarrow> (Some e, w')
            | (None, w') \<Rightarrow> run_events hook mods number_of_events (i + 1) w')
      else (None, w))"
  by pat_completeness auto
termination
  by (relation "measure (\<lambda>(hook, mods, n, i, w). unat n - unat i)")
     (auto simp: unat_next_event word_less_nat_alt)

declare run_events.simps [simp del]

definition run ::
  "(string list \<Rightarrow> Error + 32 word) \<Rightarrow> 'u hooks \<Rightarrow> ModuleManager \<Rightarrow> 'u World
    \<Rightarrow> Error option \<times> 'u World" where
  "run from_string hook mm w =
     (case get_default from_string (global_config mm) ''number_of_events'' 1 of
        Inl e \<Rightarrow> (Some e, w)
      | Inr number_of_events \<Rightarrow> run_events hook (modules mm) number_of_events 0 w)"

definition finalize :: "'u hooks \<Rightarrow> ModuleManager \<Rightarrow> 'u World \<Rightarrow> Error option \<times> 'u World" where
  "finalize hook mm w = for_modules hook Finalize (modules mm) w"

text \<open>
  The calls of \<open>main\<close> after loading, inside its \<open>try\<close>: \<open>init\<close>, \<open>run\<close>,
  \<open>finalize\<close>; the first exception ends the sequence.
\<close>

definition lifecycle ::
  "(string list \<Rightarrow> Error + 32 word) \<Rightarrow> 'u hooks \<Rightarrow> ModuleManager \<Rightarrow> 'u World
    \<Rightarrow> Error option \<times> 'u World" where
  "lifecycle from_string hook mm w =
     (case init hook mm w of
        (Some e, w1) \<Rightarrow> (Some e, w1)
      | (None, w1) \<Rightarrow>
          (case run from_string hook mm w1 of
             (Some e, w2) \<Rightarrow> (Some e, w2)
           | (None, w2) \<Rightarrow> finalize hook mm w2))"

section \<open>Messenger\<close>

text \<open>
  Modelled from the spec: of the messenger only the declarations of \<open>Messenger.hpp\<close> are
  among the sources; the bodies of the registration functions, of \<open>dispatch_message\<close> and
  of the delegates are not. The definitions of this section follow the spec's data model
  (a registration is the message type tag, the target scope with \<open>[]\<close> as the wildcard, the
  owner, the flags and what invoking it does) and its dispatch algorithm. \<open>DelegateMap\<close>
  groups the same registrations by type and scope; here they are one list in registration
  order. The flag \<open>NONE\<close> is the empty set of flags.
\<close>

datatype MsgFlag = ALLOW_OVERWRITE | REQUIRED

text \<open>
  Modelled from the spec: what a delegate holds on its subscriber. A listener's callback is
  the subscriber's own code, so only the messages it was invoked with are recorded; a
  single-slot bind holds the value set in the current event, if any; a multi-slot bind holds
  the sequence of the event's messages.
\<close>

datatype 'p Store = Listener "'p list" | SingleSlot "'p option" | MultiSlot "'p list"

record 'p DelegateRegistration =
  message_type_tag :: nat
  target_scope :: string
  owner :: nat
  flags :: "MsgFlag set"
  store :: "'p Store"

text \<open>Modelled from the spec: a typed payload and an optional target scope.\<close>

record 'p Message =
  msg_type :: nat
  msg_scope :: "string option"
  payload :: 'p

text \<open>Modelled from the spec: the three registration forms.\<close>

definition registerListener ::
  "nat \<Rightarrow> nat \<Rightarrow> string \<Rightarrow> MsgFlag set \<Rightarrow> 'p DelegateRegistration list
    \<Rightarrow> 'p DelegateRegistration list" where
  "registerListener receiver ty scope fl delegates =
     delegates @ [\<lparr>message_type_tag = ty, target_scope = scope, owner = receiver, flags = fl,
                    store = Listener []\<rparr>]"


definition bindMulti ::
  "nat \<Rightarrow> nat \<Rightarrow> string \<Rightarrow> MsgFlag set \<Rightarrow> 'p DelegateRegistration list
    \<Rightarrow> 'p DelegateRegistration list" where
  "bindMulti receiver ty scope fl delegates =
     delegates @ [\<lparr>message_type_tag = ty, target_scope = scope, owner = receiver, flags = fl,
                    store = MultiSlot []\<rparr>]"

text \<open>
  Modelled from the spec: steps 1 and 2 of the dispatch algorithm. A delegate matches a
  message when it is in the bucket of the message's type tag and its scope is the wildcard
  or the message's own target scope, if the message carries one.
\<close>

definition matches :: "'p Message \<Rightarrow> 'p DelegateRegistration \<Rightarrow> bool" where
  "matches msg d =
     (message_type_tag d = msg_type msg \<and>
      (target_scope d = [] \<or> msg_scope msg = Some (target_scope d)))"

text \<open>
  Modelled from the spec: invoking one delegate (step 4). A single-slot delegate without
  \<open>ALLOW_OVERWRITE\<close> fails when a value was already set for the current event.
\<close>

definition invoke :: "'p DelegateRegistration \<Rightarrow> 'p \<Rightarrow> Error + 'p DelegateRegistration" where
  "invoke d p =
     (case store d of
        Listener heard \<Rightarrow> Inr (d\<lparr>store := Listener (heard @ [p])\<rparr>)
      | SingleSlot v \<Rightarrow>
          (if v \<noteq> None \<and> ALLOW_OVERWRITE \<notin> flags d then Inl DoubleDeliveryError
           else Inr (d\<lparr>store := SingleSlot (Some p)\<rparr>))
      | MultiSlot ps \<Rightarrow> Inr (d\<lparr>store := MultiSlot (ps @ [p])\<rparr>))"

text \<open>
  Modelled from the spec: step 3, each matching delegate is invoked in registration order;
  the first failure ends the dispatch.
\<close>

fun dispatchMessage ::
  "'p Message \<Rightarrow> 'p DelegateRegistration list \<Rightarrow> Error + 'p DelegateRegistration list" where
  "dispatchMessage msg [] = Inr []"
| "dispatchMessage msg (d # ds) =
     (case (if matches msg d then invoke d (payload msg) else Inr d) of
        Inl e \<Rightarrow> Inl e
      | Inr d' \<Rightarrow>
          (case dispatchMessage msg ds of
             Inl e \<Rightarrow> Inl e
           | Inr ds' \<Rightarrow> Inr (d' # ds')))"

section \<open>Notions used to state the properties\<close>

text \<open>
  A schedule is a list of hook calls, each a phase and an instance; \<open>call_sequence\<close> makes
  the calls one after the other, each inside the driver's \<open>call_module\<close>, and stops at the
  first exception. \<open>schedule mods n\<close> is the order the spec gives for \<open>n\<close> events.
\<close>

fun call_sequence ::
  "'u hooks \<Rightarrow> (Phase \<times> (ModuleIdentifier \<times> Module)) list \<Rightarrow> 'u World
    \<Rightarrow> Error option \<times> 'u World" where
  "call_sequence hook [] w = (None, w)"
| "call_sequence hook (c # cs) w =
     (case call_module hook (fst c) (snd c) w of
        (Some e, w') \<Rightarrow> (Some e, w')
      | (None, w') \<Rightarrow> call_sequence hook cs w')"

definition schedule ::
  "(ModuleIdentifier \<times> Module) list \<Rightarrow> nat \<Rightarrow> (Phase \<times> (ModuleIdentifier \<times> Module)) list" where
  "schedule mods n =
     map (Pair Init) mods @ concat (replicate n (map (Pair Run) mods)) @ map (Pair Finalize) mods"

text \<open>What a successful delivery of payload \<open>p\<close> leaves in a delegate.\<close>

definition delivered :: "'p \<Rightarrow> 'p DelegateRegistration \<Rightarrow> 'p DelegateRegistration" where
  "delivered p d =
     d\<lparr>store := (case store d of
                   Listener heard \<Rightarrow> Listener (heard @ [p])
                 | SingleSlot v \<Rightarrow> SingleSlot (Some p)
                 | MultiSlot ps \<Rightarrow> MultiSlot (ps @ [p]))\<rparr>"

text \<open>
  An instance is bound to the target its identifier names: some detector of the geometry
  has the identifier's target as its name and is the one the module reports.
\<close>

definition bound_in :: "Detector list \<Rightarrow> (ModuleIdentifier \<times> Module) \<Rightarrow> bool" where
  "bound_in geo im =
     (\<exists>det \<in> set geo. getIdentifier (fst im) = det_name det \<and> module_detector (snd im) = det_addr det)"

text \<open>
  The calls of \<open>dlopen\<close> so far are pairwise different and are the paths of the libraries
  in \<open>loadedLibraries\<close>.
\<close>

definition calls_match_cache :: "Env \<Rightarrow> ModuleManager \<Rightarrow> bool" where
  "calls_match_cache env mm =
     (distinct (dlopen_calls mm) \<and>
      set (dlopen_calls mm) = (\<lambda>n. (allpix_dir env @ ''/lib/'') @ n) ` dom (loadedLibraries mm))"

text \<open>
  The module list a section yields when its library is the one \<open>dlopen\<close> opens for it:
  nothing for the section without name, otherwise what \<open>create_from_library\<close> returns.
  \<open>produced\<close> is the list of all pairs the sections of a configuration yield, in the order
  \<open>load\<close> meets them.
\<close>

definition section_modules :: "Env \<Rightarrow> Configuration \<Rightarrow> Error + (ModuleIdentifier \<times> Module) list" where
  "section_modules env conf =
     (if conf_name conf = [] then Inr []
      else (case dlopen env (fullLibPath_of env conf) of
              None \<Rightarrow> Inl (DynamicLibraryError (conf_name conf))
            | Some library \<Rightarrow> create_from_library env conf library))"

fun produced :: "Env \<Rightarrow> Configuration list \<Rightarrow> (ModuleIdentifier \<times> Module) list" where
  "produced env [] = []"
| "produced env (conf # configs) =
     (case section_modules env conf of Inl e \<Rightarrow> [] | Inr ml \<Rightarrow> ml) @ produced env configs"

text \<open>Every cached handle is the library \<open>dlopen\<close> opens for that name.\<close>

definition cache_agrees :: "Env \<Rightarrow> ModuleManager \<Rightarrow> bool" where
  "cache_agrees env mm =
     (\<forall>n lib. loadedLibraries mm n = Some lib \<longrightarrow>
        dlopen env ((allpix_dir env @ ''/lib/'') @ n) = Some lib)"

text \<open>
  Every entry of \<open>mods\<close> has the lowest priority value among the entries of \<open>from\<close> with
  its key.
\<close>

definition lowest :: "(ModuleIdentifier \<times> Module) list \<Rightarrow> (ModuleIdentifier \<times> Module) set \<Rightarrow> bool" where
  "lowest mods from =
     (\<forall>e' \<in> set mods. \<forall>e \<in> from.
        key (fst e) = key (fst e') \<longrightarrow> getPriority (fst e') \<le> getPriority (fst e))"


text \<open>
  The pair at position \<open>j\<close> of a list of produced pairs has the key and the priority of an
  earlier pair, and no earlier pair with this key has a higher priority.
\<close>

definition ambiguous_at :: "(ModuleIdentifier \<times> Module) list \<Rightarrow> nat \<Rightarrow> bool" where
  "ambiguous_at ps j =
     ((\<exists>i<j. key (fst (ps ! i)) = key (fst (ps ! j)) \<and>
             getPriority (fst (ps ! i)) = getPriority (fst (ps ! j))) \<and>
      (\<forall>l<j. key (fst (ps ! l)) = key (fst (ps ! j)) \<longrightarrow>
             getPriority (fst (ps ! j)) \<le> getPriority (fst (ps ! l))))"

section \<open>Concrete inputs\<close>

text \<open>A hook that records each call in the world, and a hook that always throws.\<close>

definition rec_hook :: "(Phase \<times> nat) list hooks" where
  "rec_hook ph m w = (None, w\<lparr>user := user w @ [(ph, impl m)]\<rparr>)"

definition fail_hook :: "unit hooks" where
  "fail_hook ph m w = (Some (ModuleException ''failed''), w)"

text \<open>Two live instances in a manager without configured event count.\<close>

definition two_modules :: "(ModuleIdentifier \<times> Module) list" where
  "two_modules =
     [(\<lparr>getName = ''A'', getIdentifier = [], getPriority = 0\<rparr>, \<lparr>impl = 1, module_detector = 0\<rparr>),
      (\<lparr>getName = ''B'', getIdentifier = ''D1'', getPriority = 1\<rparr>, \<lparr>impl = 2, module_detector = 7\<rparr>)]"

definition mm_default :: ModuleManager where
  "mm_default = ModuleManager_new\<lparr>modules := two_modules\<rparr>"

definition read_uint :: "string list \<Rightarrow> Error + 32 word" where
  "read_uint vs =
     (if vs = [''1''] then Inr 1 else if vs = [''2''] then Inr 2
      else Inl (InvalidValueError ''number_of_events''))"

text \<open>Messages of type 5 and four multi-slot delegates of different types and scopes.\<close>

definition msg_a :: "nat Message" where
  "msg_a = \<lparr>msg_type = 5, msg_scope = Some ''D1'', payload = 10\<rparr>"


definition msg_unscoped :: "nat Message" where
  "msg_unscoped = \<lparr>msg_type = 5, msg_scope = None, payload = 30\<rparr>"

definition four_delegates :: "nat DelegateRegistration list" where
  "four_delegates =
     bindMulti 4 6 [] {} (bindMulti 3 5 ''D2'' {} (bindMulti 2 5 ''D1'' {} (bindMulti 1 5 [] {} [])))"

text \<open>
  A process environment: two libraries, \<open>A\<close> with a unique module and \<open>B\<close> with a
  per-detector module, both with a generator that forwards the detector, and two detectors
  of the same type. \<open>bad_generator\<close> builds a module that does not store the detector it
  is given. Then sections for the two libraries.
\<close>

definition good_generator :: "nat \<Rightarrow> Configuration \<Rightarrow> Detector option \<Rightarrow> Error + Module" where
  "good_generator k conf det =
     Inr \<lparr>impl = k, module_detector = (case det of None \<Rightarrow> 0 | Some d \<Rightarrow> det_addr d)\<rparr>"

definition bad_generator :: "Configuration \<Rightarrow> Detector option \<Rightarrow> Error + Module" where
  "bad_generator conf det = Inr \<lparr>impl = 9, module_detector = 0\<rparr>"

definition lib_A :: Library where
  "lib_A = \<lparr>sym_unique = Some True, sym_generator = Some (good_generator 1)\<rparr>"

definition lib_B :: Library where
  "lib_B = \<lparr>sym_unique = Some False, sym_generator = Some (good_generator 2)\<rparr>"

definition det_D1 :: Detector where
  "det_D1 = \<lparr>det_addr = 7, det_name = ''D1'', det_type = ''T''\<rparr>"

definition det_D2 :: Detector where
  "det_D2 = \<lparr>det_addr = 8, det_name = ''D2'', det_type = ''T''\<rparr>"

definition the_env :: Env where
  "the_env =
     \<lparr>allpix_dir = ''/opt'', shared_library_suffix = ''.so'',
      dlopen = [''/opt/lib/libAllpixModuleA.so'' \<mapsto> lib_A,
                ''/opt/lib/libAllpixModuleB.so'' \<mapsto> lib_B],
      geo_manager = [det_D1, det_D2]\<rparr>"

definition conf_A :: Configuration where
  "conf_A = \<lparr>conf_name = ''A'', conf_values = Map.empty\<rparr>"

definition conf_B_all :: Configuration where
  "conf_B_all = \<lparr>conf_name = ''B'', conf_values = Map.empty\<rparr>"

definition conf_B_name :: Configuration where
  "conf_B_name = \<lparr>conf_name = ''B'', conf_values = [''name'' \<mapsto> [''D1'']]\<rparr>"

definition conf_B_type :: Configuration where
  "conf_B_type = \<lparr>conf_name = ''B'', conf_values = [''type'' \<mapsto> [''T'']]\<rparr>"

definition conf_B_both :: Configuration where
  "conf_B_both = \<lparr>conf_name = ''B'', conf_values = [''name'' \<mapsto> [''D1''], ''type'' \<mapsto> [''T'']]\<rparr>"

definition conf_B_twice :: Configuration where
  "conf_B_twice =
     \<lparr>conf_name = ''B'', conf_values = [''name'' \<mapsto> [''D1'', ''D1''], ''type'' \<mapsto> [''T'']]\<rparr>"

text \<open>
  The manager after library \<open>A\<close> was loaded, and after the two sections \<open>B\<close> with
  \<open>name = D1\<close> and \<open>B\<close> with \<open>type = T\<close> were loaded.
\<close>

definition mm_A_loaded :: ModuleManager where
  "mm_A_loaded =
     ModuleManager_new\<lparr>loadedLibraries := [''libAllpixModuleA.so'' \<mapsto> lib_A],
       dlopen_calls := [''/opt/lib/libAllpixModuleA.so'']\<rparr>"

definition mm_B_loaded :: ModuleManager where
  "mm_B_loaded =
     \<lparr>modules =
        [(\<lparr>getName = ''B'', getIdentifier = ''D1'', getPriority = 1\<rparr>,
          \<lparr>impl = 2, module_detector = 7\<rparr>),
         (\<lparr>getName = ''B'', getIdentifier = ''D2'', getPriority = 2\<rparr>,
          \<lparr>impl = 2, module_detector = 8\<rparr>)],
      loadedLibraries = [''libAllpixModuleB.so'' \<mapsto> lib_B],
      global_config = \<lparr>conf_name = [], conf_values = Map.empty\<rparr>,
      dlopen_calls = [''/opt/lib/libAllpixModuleB.so'']\<rparr>"

text \<open>The manager after library \<open>A\<close> and then the section \<open>B\<close> with \<open>name = D1\<close>.\<close>

definition mm_AB_loaded :: ModuleManager where
  "mm_AB_loaded =
     \<lparr>modules =
        [(\<lparr>getName = ''B'', getIdentifier = ''D1'', getPriority = 1\<rparr>,
          \<lparr>impl = 2, module_detector = 7\<rparr>)],
      loadedLibraries = [''libAllpixModuleA.so'' \<mapsto> lib_A, ''libAllpixModuleB.so'' \<mapsto> lib_B],
      global_config = \<lparr>conf_name = [], conf_values = Map.empty\<rparr>,
      dlopen_calls = [''/opt/lib/libAllpixModuleA.so'', ''/opt/lib/libAllpixModuleB.so'']\<rparr>"


text \<open>
  The environment with \<open>D1\<close> as the only detector, and the manager after the sections
  \<open>B\<close> with \<open>name = D1\<close> and twice \<open>B\<close> with \<open>type = T\<close> there.
\<close>

definition env_single :: Env where
  "env_single = the_env\<lparr>geo_manager := [det_D1]\<rparr>"

definition mm_name_kept :: ModuleManager where
  "mm_name_kept =
     \<lparr>modules =
        [(\<lparr>getName = ''B'', getIdentifier = ''D1'', getPriority = 1\<rparr>,
          \<lparr>impl = 2, module_detector = 7\<rparr>)],
      loadedLibraries = [''libAllpixModuleB.so'' \<mapsto> lib_B],
      global_config = \<lparr>conf_name = [], conf_values = Map.empty\<rparr>,
      dlopen_calls = [''/opt/lib/libAllpixModuleB.so'']\<rparr>"

text \<open>
  A header section (the section without name) that sets \<open>number_of_events\<close> to 2, and
  the manager after this header and the sections \<open>A\<close> and \<open>B\<close> with \<open>name = D1\<close>.
\<close>

definition header_two_events :: Configuration where
  "header_two_events = \<lparr>conf_name = [], conf_values = [''number_of_events'' \<mapsto> [''2'']]\<rparr>"

definition mm_header_loaded :: ModuleManager where
  "mm_header_loaded =
     \<lparr>modules =
        [(\<lparr>getName = ''A'', getIdentifier = [], getPriority = 0\<rparr>,
          \<lparr>impl = 1, module_detector = 0\<rparr>),
         (\<lparr>getName = ''B'', getIdentifier = ''D1'', getPriority = 1\<rparr>,
          \<lparr>impl = 2, module_detector = 7\<rparr>)],
      loadedLibraries = [''libAllpixModuleA.so'' \<mapsto> lib_A, ''libAllpixModuleB.so'' \<mapsto> lib_B],
      global_config = \<lparr>conf_name = [], conf_values = Map.empty\<rparr>,
      dlopen_calls = [''/opt/lib/libAllpixModuleA.so'', ''/opt/lib/libAllpixModuleB.so'']\<rparr>"

section \<open>Helper lemmas\<close>

subsection \<open>The lifecycle loops as one sequence of calls\<close>

lemma call_sequence_append:
  "call_sequence hook (xs @ ys) w =
     (case call_sequence hook xs w of
        (Some e, w') \<Rightarrow> (Some e, w')
      | (None, w') \<Rightarrow> call_sequence hook ys w')"
  by (induction xs arbitrary: w) (auto split: prod.splits option.splits)

lemma for_modules_sequence:
  "for_modules hook ph mods w = call_sequence hook (map (Pair ph) mods) w"
  by (induction mods arbitrary: w) (auto split: prod.splits option.splits)

lemma run_events_sequence:
  "run_events hook mods n i w =
     call_sequence hook (concat (replicate (unat n - unat i) (map (Pair Run) mods))) w"
proof (induction hook mods n i w rule: run_events.induct)
  case (1 hook mods n i w)
  show ?case
  proof (cases "i < n")
    case False
    then have "unat n - unat i = 0"
      by (simp add: word_less_nat_alt)
    with False show ?thesis
      by (simp add: run_events.simps[of hook mods n i w])
  next
    case True
    then have step: "unat n - unat i = Suc (unat n - unat (i + 1))"
      by (simp add: unat_next_event word_less_nat_alt)
    show ?thesis
      using True 1
      by (simp add: run_events.simps[of hook mods n i w] step call_sequence_append
          for_modules_sequence split: prod.splits option.splits)
  qed
qed

lemma call_module_returns:
  "call_module hook ph md w = (None, w') \<Longrightarrow> log_section w' = log_section w"
  by (auto simp: call_module_def Let_def split: prod.splits option.splits)

lemma for_modules_returns:
  "for_modules hook ph mods w = (None, w') \<Longrightarrow> log_section w' = log_section w"
proof (induction mods arbitrary: w)
  case Nil
  then show ?case by simp
next
  case (Cons md mods)
  then show ?case
    by (auto split: prod.splits option.splits dest: call_module_returns)
qed

subsection \<open>Dispatch\<close>

lemma invoke_Inr: "invoke d p = Inr d' \<Longrightarrow> d' = delivered p d"
  by (auto simp: invoke_def delivered_def split: Store.splits if_splits)

lemma dispatch_Inr:
  "dispatchMessage msg ds = Inr ds' \<Longrightarrow>
     ds' = map (\<lambda>d. if matches msg d then delivered (payload msg) d else d) ds"
  by (induction ds arbitrary: ds') (auto split: sum.splits if_splits dest: invoke_Inr)




subsection \<open>What the creation loops return\<close>

lemma getDetector_name: "getDetector geo n = Inr d \<Longrightarrow> det_name d = n \<and> d \<in> set geo"
  unfolding getDetector_def
  by (auto split: option.splits dest: find_Some_iff[THEN iffD1] simp: in_set_conv_nth)

lemma instantiate_Inr:
  "instantiate conf g det p = Inr im \<Longrightarrow>
     fst im = \<lparr>getName = conf_name conf, getIdentifier = det_name det, getPriority = p\<rparr>
     \<and> g conf (Some det) = Inr (snd im) \<and> module_detector (snd im) = det_addr det"
  unfolding instantiate_def check_module_detector_def
  by (auto simp: Let_def split: sum.splits if_splits)

lemma create_by_name_ids:
  "create_by_name geo conf g ns = Inr ml \<Longrightarrow>
     map fst ml = map (\<lambda>n. \<lparr>getName = conf_name conf, getIdentifier = n, getPriority = 1\<rparr>) ns"
  by (induction ns arbitrary: ml)
     (auto split: sum.splits dest!: instantiate_Inr getDetector_name)

lemma create_for_detectors_ids:
  "create_for_detectors conf g names p dets = Inr ml \<Longrightarrow>
     map fst ml = map (\<lambda>d. \<lparr>getName = conf_name conf, getIdentifier = det_name d, getPriority = p\<rparr>)
                    (filter (\<lambda>d. det_name d \<notin> set names) dets)"
  by (induction dets arbitrary: ml)
     (auto split: sum.splits if_splits dest!: instantiate_Inr)

lemma create_by_type_ids:
  "create_by_type geo conf g names ts = Inr ml \<Longrightarrow>
     map fst ml = map (\<lambda>d. \<lparr>getName = conf_name conf, getIdentifier = det_name d, getPriority = 2\<rparr>)
                    (filter (\<lambda>d. det_name d \<notin> set names) (concat (map (getDetectorsByType geo) ts)))"
  by (induction ts arbitrary: ml)
     (auto split: sum.splits dest!: create_for_detectors_ids)

lemma instantiate_bound: "instantiate conf g det p = Inr im \<Longrightarrow> det \<in> set geo \<Longrightarrow> bound_in geo im"
  by (auto simp: bound_in_def dest!: instantiate_Inr)

lemma create_by_name_bound:
  "create_by_name geo conf g ns = Inr ml \<Longrightarrow> im \<in> set ml \<Longrightarrow> bound_in geo im"
proof (induction ns arbitrary: ml)
  case Nil
  then show ?case by simp
next
  case (Cons n ns)
  from Cons.prems(1) obtain det x rest where
    det: "getDetector geo n = Inr det" and x: "instantiate conf g det 1 = Inr x"
    and rest: "create_by_name geo conf g ns = Inr rest" and ml: "ml = x # rest"
    by (auto split: sum.splits)
  from det x have "bound_in geo x"
    using getDetector_name instantiate_bound by blast
  with Cons.IH [OF rest] Cons.prems(2) ml show ?case
    by auto
qed

lemma create_for_detectors_bound:
  "create_for_detectors conf g names p dets = Inr ml \<Longrightarrow> set dets \<subseteq> set geo \<Longrightarrow> im \<in> set ml
    \<Longrightarrow> bound_in geo im"
proof (induction dets arbitrary: ml)
  case Nil
  then show ?case by simp
next
  case (Cons det dets)
  show ?case
  proof (cases "det_name det \<in> set names")
    case True
    with Cons show ?thesis by simp
  next
    case False
    with Cons.prems(1) obtain x rest where
      x: "instantiate conf g det p = Inr x"
      and rest: "create_for_detectors conf g names p dets = Inr rest" and ml: "ml = x # rest"
      by (auto split: sum.splits)
    from x Cons.prems(2) have "bound_in geo x"
      using instantiate_bound by auto
    with Cons.IH [OF rest] Cons.prems ml show ?thesis
      by auto
  qed
qed

lemma create_by_type_bound:
  "create_by_type geo conf g names ts = Inr ml \<Longrightarrow> im \<in> set ml \<Longrightarrow> bound_in geo im"
proof (induction ts arbitrary: ml)
  case Nil
  then show ?case by simp
next
  case (Cons t ts)
  from Cons.prems(1) obtain ms rest where
    ms: "create_for_detectors conf g names 2 (getDetectorsByType geo t) = Inr ms"
    and rest: "create_by_type geo conf g names ts = Inr rest" and ml: "ml = ms @ rest"
    by (auto split: sum.splits)
  have "set (getDetectorsByType geo t) \<subseteq> set geo"
    by (auto simp: getDetectorsByType_def)
  from create_for_detectors_bound [OF ms this] Cons.IH [OF rest] Cons.prems(2) ml
  show ?case
    by (cases im) auto
qed

lemma createModulesPerDetector_bound:
  assumes "createModulesPerDetector env conf lib = Inr ml" and "im \<in> set ml"
  shows "bound_in (geo_manager env) im"
  using assms
  by (auto simp: createModulesPerDetector_def Let_def getDetectors_def
      split: option.splits sum.splits if_splits
      dest: create_by_name_bound create_by_type_bound
        create_for_detectors_bound[where geo = "geo_manager env"])

lemma distinct_by_type:
  assumes "distinct (map det_name geo)" and "distinct ts"
  shows "distinct (map det_name (concat (map (getDetectorsByType geo) ts)))"
  using assms(2)
proof (induction ts)
  case Nil
  then show ?case by simp
next
  case (Cons t ts)
  have inj: "inj_on det_name (set geo)"
    using assms(1) by (simp add: distinct_map)
  have one: "distinct (map det_name (getDetectorsByType geo t))"
    using assms(1) by (simp add: getDetectorsByType_def distinct_map_filter)
  have disj: "det_name d \<noteq> det_name d'"
    if "d \<in> set (getDetectorsByType geo t)" and "d' \<in> set (getDetectorsByType geo t')"
      and "t' \<in> set ts" for d d' t'
  proof
    assume eq: "det_name d = det_name d'"
    from that have "d \<in> set geo" "d' \<in> set geo" "det_type d = t" "det_type d' = t'"
      by (auto simp: getDetectorsByType_def)
    with eq inj have "t = t'"
      by (auto dest: inj_onD)
    with that(3) Cons.prems show False
      by simp
  qed
  from Cons one disj show ?case
    by (auto simp: distinct_map)  
qed

subsection \<open>The library cache\<close>

lemma load_library_cases:
  assumes "load_library env conf mm = Inr mm1"
  shows "(loadedLibraries mm (libName_of env conf) \<noteq> None \<and> mm1 = mm) \<or>
         (loadedLibraries mm (libName_of env conf) = None \<and>
          (\<exists>lib. dlopen env (fullLibPath_of env conf) = Some lib \<and>
             mm1 = mm\<lparr>loadedLibraries := (loadedLibraries mm)(libName_of env conf \<mapsto> lib),
                       dlopen_calls := dlopen_calls mm @ [fullLibPath_of env conf]\<rparr>))"
  using assms by (auto simp: load_library_def Let_def split: if_splits option.splits)

lemma load_library_keeps:
  assumes "load_library env conf mm = Inr mm1" and "loadedLibraries mm n = Some lib"
  shows "loadedLibraries mm1 n = Some lib"
  using load_library_cases [OF assms(1)] assms(2) by auto

lemma load_library_modules:
  "load_library env conf mm = Inr mm1 \<Longrightarrow> modules mm1 = modules mm"
  by (auto dest!: load_library_cases)

lemma load_library_dom:
  "load_library env conf mm = Inr mm1 \<Longrightarrow>
     dom (loadedLibraries mm1) = insert (libName_of env conf) (dom (loadedLibraries mm))"
  by (auto dest!: load_library_cases)

lemma load_library_calls:
  assumes "load_library env conf mm = Inr mm1" and "calls_match_cache env mm"
  shows "calls_match_cache env mm1"
proof -
  let ?path = "\<lambda>n. (allpix_dir env @ ''/lib/'') @ n"
  from load_library_cases [OF assms(1)] show ?thesis
  proof (elim disjE conjE exE)
    assume "mm1 = mm"
    with assms(2) show ?thesis by simp
  next
    fix lib
    assume new: "loadedLibraries mm (libName_of env conf) = None"
      and mm1: "mm1 = mm\<lparr>loadedLibraries := (loadedLibraries mm)(libName_of env conf \<mapsto> lib),
                       dlopen_calls := dlopen_calls mm @ [fullLibPath_of env conf]\<rparr>"
    have path: "fullLibPath_of env conf = ?path (libName_of env conf)"
      by (simp add: fullLibPath_of_def)
    from new have "libName_of env conf \<notin> dom (loadedLibraries mm)"
      by auto
    then have "?path (libName_of env conf) \<notin> ?path ` dom (loadedLibraries mm)"
      by (auto simp del: append_assoc)
    with assms(2) have fresh: "fullLibPath_of env conf \<notin> set (dlopen_calls mm)"
      unfolding path calls_match_cache_def by simp
    have "set (dlopen_calls mm1) = insert (fullLibPath_of env conf) (set (dlopen_calls mm))"
      by (simp add: mm1)
    also have "\<dots> = ?path ` dom (loadedLibraries mm1)"
      using assms(2) unfolding path calls_match_cache_def by (simp add: mm1)
    finally show ?thesis
      using fresh assms(2) by (simp add: calls_match_cache_def mm1)
  qed
qed

lemma load_section_cache:
  assumes "load_section env conf mm = Inr mm'"
  shows "(conf_name conf = [] \<and> mm' = mm) \<or>
         (conf_name conf \<noteq> [] \<and>
          (\<exists>mm1 mods. load_library env conf mm = Inr mm1 \<and> mm' = mm1\<lparr>modules := mods\<rparr>))"
  using assms by (auto simp: load_section_def split: if_splits sum.splits option.splits)

lemma load_section_keeps:
  assumes "load_section env conf mm = Inr mm'" and "loadedLibraries mm n = Some lib"
  shows "loadedLibraries mm' n = Some lib"
  using load_section_cache [OF assms(1)] assms(2) by (auto dest: load_library_keeps)

lemma load_section_calls:
  assumes "load_section env conf mm = Inr mm'" and "calls_match_cache env mm"
  shows "calls_match_cache env mm'"
proof -
  from load_section_cache [OF assms(1)] consider "mm' = mm"
    | mm1 mods where "load_library env conf mm = Inr mm1" "mm' = mm1\<lparr>modules := mods\<rparr>"
    by auto
  then show ?thesis
  proof cases
    case 1
    with assms(2) show ?thesis by simp
  next
    case 2
    from load_library_calls [OF 2(1) assms(2)] 2(2) show ?thesis
      by (simp add: calls_match_cache_def)
  qed
qed

lemma load_section_dom:
  assumes "load_section env conf mm = Inr mm'"
  shows "dom (loadedLibraries mm') =
           dom (loadedLibraries mm) \<union> libName_of env ` {c \<in> {conf}. conf_name c \<noteq> []}"
proof -
  from load_section_cache [OF assms] consider "conf_name conf = []" "mm' = mm"
    | mm1 mods where "conf_name conf \<noteq> []" "load_library env conf mm = Inr mm1"
      "mm' = mm1\<lparr>modules := mods\<rparr>"
    by auto
  then show ?thesis
  proof cases
    case 1
    then show ?thesis by auto
  next
    case 2
    from load_library_dom [OF 2(2)] 2(1) 2(3) show ?thesis
      by auto
  qed
qed

lemma load_keeps:
  "load env configs mm = Inr mm' \<Longrightarrow> loadedLibraries mm n = Some lib
    \<Longrightarrow> loadedLibraries mm' n = Some lib"
  by (induction configs arbitrary: mm) (auto split: sum.splits dest: load_section_keeps)

lemma load_calls:
  "load env configs mm = Inr mm' \<Longrightarrow> calls_match_cache env mm \<Longrightarrow> calls_match_cache env mm'"
  by (induction configs arbitrary: mm) (auto split: sum.splits dest: load_section_calls)

lemma load_dom:
  "load env configs mm = Inr mm' \<Longrightarrow>
     dom (loadedLibraries mm') =
       dom (loadedLibraries mm) \<union> libName_of env ` {c \<in> set configs. conf_name c \<noteq> []}"
proof (induction configs arbitrary: mm)
  case Nil
  then show ?case by simp
next
  case (Cons c configs)
  from Cons.prems obtain mm1 where
    one: "load_section env c mm = Inr mm1" and rest: "load env configs mm1 = Inr mm'"
    by (auto split: sum.splits)
  from Cons.IH [OF rest] load_section_dom [OF one] show ?case
    by auto
qed

subsection \<open>Loading the concrete sections\<close>

lemmas example_defs = the_env_def conf_A_def conf_B_name_def conf_B_type_def conf_B_all_def
  lib_A_def lib_B_def det_D1_def det_D2_def good_generator_def ModuleManager_new_def

lemmas load_defs = load_section_def load_library_def libName_of_def fullLibPath_of_def
  create_from_library_def createModules_def createModulesPerDetector_def has_def getArray_def
  getDetector_def getDetectorsByType_def getDetectors_def instantiate_def
  check_module_detector_def place_module_def key_def Let_def

lemma load_A_first: "load_library the_env conf_A ModuleManager_new = Inr mm_A_loaded"
  by (simp add: example_defs load_defs mm_A_loaded_def)

lemma load_B_twice: "load the_env [conf_B_name, conf_B_type] ModuleManager_new = Inr mm_B_loaded"
  by (simp add: example_defs load_defs mm_B_loaded_def)

lemma load_B_after_A: "load the_env [conf_B_name] mm_A_loaded = Inr mm_AB_loaded"
  by (simp add: example_defs load_defs mm_A_loaded_def mm_AB_loaded_def)

subsection \<open>Placing produced pairs: find and erase\<close>

lemma find_key_None:
  "find (\<lambda>im. key (fst im) = k) mods = None \<longleftrightarrow> k \<notin> (key \<circ> fst) ` set mods"
  by (induction mods) auto

lemma find_key_Some:
  "find (\<lambda>im. key (fst im) = k) mods = Some it \<Longrightarrow> it \<in> set mods \<and> key (fst it) = k"
  by (induction mods) (auto split: if_splits)

lemma erase_keys: "map (key \<circ> fst) (erase k mods) = remove1 k (map (key \<circ> fst) mods)"
  by (induction mods) auto

lemma erase_subset: "set (erase k mods) \<subseteq> set mods"
  by (induction mods) auto

lemma erase_distinct:
  assumes "distinct (map (key \<circ> fst) mods)"
  shows "distinct (map (key \<circ> fst) (erase k mods))"
    and "(key \<circ> fst) ` set (erase k mods) = (key \<circ> fst) ` set mods - {k}"
proof -
  show "distinct (map (key \<circ> fst) (erase k mods))"
    using assms by (simp add: erase_keys)
  have "set (map (key \<circ> fst) (erase k mods)) = set (map (key \<circ> fst) mods) - {k}"
    using assms by (simp add: erase_keys)
  then show "(key \<circ> fst) ` set (erase k mods) = (key \<circ> fst) ` set mods - {k}"
    by simp
qed

lemma same_key_same_entry:
  assumes "distinct (map (key \<circ> fst) mods)" and "a \<in> set mods" and "b \<in> set mods"
    and "key (fst a) = key (fst b)"
  shows "a = b"
proof -
  from assms(1) have "inj_on (key \<circ> fst) (set mods)"
    by (simp add: distinct_map)
  then show ?thesis
    by (rule inj_onD) (simp_all add: assms)
qed

lemma place_module_step:
  assumes ok: "place_module conf x mods = Inr mods'"
    and dist: "distinct (map (key \<circ> fst) mods)"
  shows "distinct (map (key \<circ> fst) mods') \<and> set mods' \<subseteq> insert x (set mods) \<and>
         (key \<circ> fst) ` set mods' = insert (key (fst x)) ((key \<circ> fst) ` set mods) \<and>
         lowest mods' (insert x (set mods))"
proof -
  let ?k = "key (fst x)"
  show ?thesis
  proof (cases "find (\<lambda>im. key (fst im) = ?k) mods")
    case None
    then have fresh: "?k \<notin> (key \<circ> fst) ` set mods"
      by (simp add: find_key_None)
    from ok None have mods': "mods' = mods @ [x]"
      by (simp add: place_module_def Let_def)
    have "lowest mods' (insert x (set mods))"
      unfolding lowest_def
    proof (intro ballI impI)
      fix e' e
      assume e': "e' \<in> set mods'" and e: "e \<in> insert x (set mods)"
        and k: "key (fst e) = key (fst e')"
      from fresh have no: "key (fst a) \<noteq> ?k" if "a \<in> set mods" for a
        using that by (auto simp: image_iff)
      from e' have "e' = x \<or> e' \<in> set mods"
        by (auto simp: mods')
      with e k no [of e] no [of e'] same_key_same_entry [OF dist, of e e'] have "e = e'"
        by (metis insert_iff)
      then show "getPriority (fst e') \<le> getPriority (fst e)"
        by simp
    qed
    with fresh dist show ?thesis
      by (auto simp: mods')
  next
    case (Some it)
    from find_key_Some [OF Some] have it: "it \<in> set mods" "key (fst it) = ?k"
      by simp_all
    have only: "e = it" if "e \<in> set mods" "key (fst e) = ?k" for e
      using same_key_same_entry [OF dist that(1) it(1)] that(2) it(2) by simp
    show ?thesis
    proof (cases "getPriority (fst it) > getPriority (fst x)")
      case True
      with ok Some it have mods': "mods' = erase ?k mods @ [x]"
        by (simp add: place_module_def Let_def)
      have gone: "?k \<notin> (key \<circ> fst) ` set (erase ?k mods)"
        using erase_distinct(2) [OF dist, of ?k] by simp
      have low: "lowest mods' (insert x (set mods))"
        unfolding lowest_def
      proof (intro ballI impI)
        fix e' e
        assume e': "e' \<in> set mods'" and e: "e \<in> insert x (set mods)"
          and k: "key (fst e) = key (fst e')"
        show "getPriority (fst e') \<le> getPriority (fst e)"
        proof (cases "e' = x")
          case True
          from e consider "e = x" | "e \<in> set mods"
            by auto
          then show ?thesis
          proof cases
            case 1
            with True show ?thesis by simp
          next
            case 2
            with k True only [of e] have "e = it"
              by simp
            with True \<open>getPriority (fst it) > getPriority (fst x)\<close> show ?thesis
              by simp
          qed
        next
          case False
          with e' mods' have in_erase: "e' \<in> set (erase ?k mods)"
            by simp
          then have "e' \<in> set mods"
            using erase_subset by blast
          moreover from in_erase gone have "key (fst e') \<noteq> ?k"
            by (auto simp: image_iff)
          ultimately show ?thesis
            using e k same_key_same_entry [OF dist, of e e'] by (cases "e = x") auto
        qed
      qed
      from erase_distinct [OF dist, of ?k] gone it erase_subset [of ?k mods] low
      show ?thesis
        by (auto simp: mods' image_iff)
    next
      case False
      with ok Some have neq: "getPriority (fst it) \<noteq> getPriority (fst x)" and mods': "mods' = mods"
        by (auto simp: place_module_def Let_def split: if_splits)
      have low: "lowest mods' (insert x (set mods))"
        unfolding lowest_def mods'
        using only same_key_same_entry [OF dist] False neq
        by (metis insert_iff less_le_not_le linorder_le_cases order_refl)
      have "(key \<circ> fst) it \<in> (key \<circ> fst) ` set mods"
        using it(1) by (rule imageI)
      then have "?k \<in> (key \<circ> fst) ` set mods"
        using it(2) by simp
      with dist low show ?thesis
        by (simp add: mods' insert_absorb subset_insertI)
    qed
  qed
qed

subsection \<open>A list of produced pairs\<close>

lemma place_modules_append:
  "place_modules conf (xs @ ys) mods =
     (case place_modules conf xs mods of
        Inl e \<Rightarrow> Inl e
      | Inr mods' \<Rightarrow> place_modules conf ys mods')"
  by (induction xs arbitrary: mods) (auto split: sum.splits)

lemma place_module_any_conf:
  "place_module conf x mods = Inr mods' \<Longrightarrow> place_module conf' x mods = Inr mods'"
  by (auto simp: place_module_def Let_def split: option.splits if_splits)

lemma place_modules_any_conf:
  "place_modules conf ml mods = Inr mods' \<Longrightarrow> place_modules conf' ml mods = Inr mods'"
  by (induction ml arbitrary: mods)
     (auto split: sum.splits dest: place_module_any_conf[where conf' = conf'])

lemma place_module_error:
  "place_module conf x mods = Inl e \<Longrightarrow> e = AmbiguousInstantiationError (conf_name conf)"
  by (auto simp: place_module_def Let_def split: option.splits if_splits)

lemma place_modules_error:
  "place_modules conf ml mods = Inl e \<Longrightarrow> e = AmbiguousInstantiationError (conf_name conf)"
  by (induction ml arbitrary: mods) (auto split: sum.splits dest: place_module_error)

lemma place_modules_result:
  assumes "place_modules conf ml mods = Inr mods'"
    and "distinct (map (key \<circ> fst) mods)"
  shows "distinct (map (key \<circ> fst) mods') \<and> set mods' \<subseteq> set mods \<union> set ml \<and>
         (key \<circ> fst) ` set mods' = (key \<circ> fst) ` (set mods \<union> set ml) \<and>
         lowest mods' (set mods \<union> set ml)"
  using assms
proof (induction ml arbitrary: mods)
  case Nil
  then have "mods' = mods"
    by simp
  moreover have "lowest mods (set mods)"
    unfolding lowest_def using same_key_same_entry [OF Nil.prems(2)] by (metis order_refl)
  ultimately show ?case
    using Nil.prems(2) by simp
next
  case (Cons x ml)
  from Cons.prems(1) obtain mid where
    one: "place_module conf x mods = Inr mid" and rest: "place_modules conf ml mid = Inr mods'"
    by (auto split: sum.splits)
  note s = place_module_step [OF one Cons.prems(2)]
  note s_dist = s [THEN conjunct1]
  note s_sub = s [THEN conjunct2, THEN conjunct1]
  note s_keys = s [THEN conjunct2, THEN conjunct2, THEN conjunct1]
  note s_low = s [THEN conjunct2, THEN conjunct2, THEN conjunct2]
  note r = Cons.IH [OF rest s_dist]
  note r_dist = r [THEN conjunct1]
  note r_sub = r [THEN conjunct2, THEN conjunct1]
  note r_keys = r [THEN conjunct2, THEN conjunct2, THEN conjunct1]
  note r_low = r [THEN conjunct2, THEN conjunct2, THEN conjunct2]
  have low: "lowest mods' (set mods \<union> set (x # ml))"
    unfolding lowest_def
  proof (intro ballI impI)
    fix e' e
    assume e': "e' \<in> set mods'" and e: "e \<in> set mods \<union> set (x # ml)"
      and k: "key (fst e) = key (fst e')"
    show "getPriority (fst e') \<le> getPriority (fst e)"
    proof (cases "e \<in> set ml")
      case True
      with r_low e' k show ?thesis
        unfolding lowest_def by blast
    next
      case False
      with e have e_in: "e \<in> insert x (set mods)"
        by auto
      then have "(key \<circ> fst) e \<in> (key \<circ> fst) ` insert x (set mods)"
        by (rule imageI)
      also have "\<dots> = (key \<circ> fst) ` set mid"
        unfolding s_keys by simp
      finally obtain c where c: "c \<in> set mid" "key (fst c) = key (fst e)"
        by (auto simp: image_iff)
      from s_low c e_in have "getPriority (fst c) \<le> getPriority (fst e)"
        unfolding lowest_def by metis
      moreover from r_low e' c k have "getPriority (fst e') \<le> getPriority (fst c)"
        unfolding lowest_def by (metis UnI1)
      ultimately show ?thesis
        by simp
    qed
  qed
  from s_sub r_sub have sub: "set mods' \<subseteq> set mods \<union> set (x # ml)"
    by auto
  have "(key \<circ> fst) ` set mods' = (key \<circ> fst) ` set mid \<union> (key \<circ> fst) ` set ml"
    unfolding r_keys by (rule image_Un)
  also have "\<dots> = insert (key (fst x)) ((key \<circ> fst) ` set mods) \<union> (key \<circ> fst) ` set ml"
    unfolding s_keys ..
  also have "\<dots> = (key \<circ> fst) ` (set mods \<union> set (x # ml))"
    by (simp add: image_Un)
  finally have keys: "(key \<circ> fst) ` set mods' = (key \<circ> fst) ` (set mods \<union> set (x # ml))" .
  from r_dist sub keys low show ?case
    by blast
qed

subsection \<open>Sections\<close>

lemma load_library_agrees:
  assumes "load_library env conf mm = Inr mmc" and "cache_agrees env mm"
  shows "cache_agrees env mmc \<and> modules mmc = modules mm \<and>
         loadedLibraries mmc (libName_of env conf) = dlopen env (fullLibPath_of env conf)"
proof -
  from load_library_cases [OF assms(1)] show ?thesis
  proof (elim disjE conjE exE)
    assume "loadedLibraries mm (libName_of env conf) \<noteq> None" and "mmc = mm"
    with assms(2) show ?thesis
      by (auto simp: cache_agrees_def fullLibPath_of_def)
  next
    fix lib
    assume lib: "dlopen env (fullLibPath_of env conf) = Some lib"
      and mmc: "mmc = mm\<lparr>loadedLibraries := (loadedLibraries mm)(libName_of env conf \<mapsto> lib),
                       dlopen_calls := dlopen_calls mm @ [fullLibPath_of env conf]\<rparr>"
    have "cache_agrees env mmc"
      unfolding cache_agrees_def
    proof (intro allI impI)
      fix n l
      assume "loadedLibraries mmc n = Some l"
      then show "dlopen env ((allpix_dir env @ ''/lib/'') @ n) = Some l"
        using assms(2) lib unfolding mmc cache_agrees_def fullLibPath_of_def
        by (cases "n = libName_of env conf") simp_all
    qed
    with lib mmc show ?thesis
      by simp
  qed
qed

lemma load_library_succeeds:
  assumes "dlopen env (fullLibPath_of env conf) = Some library" and "cache_agrees env mm"
  shows "\<exists>mmc. load_library env conf mm = Inr mmc"
  using assms by (auto simp: load_library_def Let_def)

lemma load_section_as_place:
  assumes "section_modules env conf = Inr ml" and "cache_agrees env mm"
  shows "\<exists>mmc. cache_agrees env mmc \<and> modules mmc = modules mm \<and>
           load_section env conf mm =
             (case place_modules conf ml (modules mm) of
                Inl e \<Rightarrow> Inl e
              | Inr mods \<Rightarrow> Inr (mmc\<lparr>modules := mods\<rparr>))"
proof (cases "conf_name conf = []")
  case True
  with assms(1) have "ml = []"
    by (simp add: section_modules_def)
  with True assms(2) show ?thesis
    by (intro exI[of _ mm]) (simp add: load_section_def)
next
  case False
  with assms(1) obtain library where
    lib: "dlopen env (fullLibPath_of env conf) = Some library"
    and ml: "create_from_library env conf library = Inr ml"
    by (auto simp: section_modules_def split: option.splits)
  from load_library_succeeds [OF lib assms(2)] obtain mmc where
    mmc: "load_library env conf mm = Inr mmc"
    by blast
  note a = load_library_agrees [OF mmc assms(2)]
  from a lib have l: "loadedLibraries mmc (libName_of env conf) = Some library"
    by simp
  from a have m: "modules mmc = modules mm"
    by simp
  have "load_section env conf mm =
             (case place_modules conf ml (modules mm) of
                Inl e \<Rightarrow> Inl e
              | Inr mods \<Rightarrow> Inr (mmc\<lparr>modules := mods\<rparr>))"
    by (simp add: load_section_def False mmc l ml m)
  with a show ?thesis
    by blast
qed


lemma cache_agrees_modules: "cache_agrees env (mm\<lparr>modules := mods\<rparr>) = cache_agrees env mm"
  by (simp add: cache_agrees_def)


lemma load_fails_as_place:
  assumes "place_modules c (produced env configs) (modules mm) = Inl e"
    and "\<forall>conf \<in> set configs. \<exists>ml. section_modules env conf = Inr ml"
    and "cache_agrees env mm"
  shows "\<exists>n. load env configs mm = Inl (AmbiguousInstantiationError n)"
  using assms
proof (induction configs arbitrary: mm)
  case Nil
  then show ?case by simp
next
  case (Cons conf configs)
  from Cons.prems(2) obtain ml where ml: "section_modules env conf = Inr ml"
    by auto
  from load_section_as_place [OF ml Cons.prems(3)] obtain mmc where
    mmc: "cache_agrees env mmc"
    and sec: "load_section env conf mm =
             (case place_modules conf ml (modules mm) of
                Inl e \<Rightarrow> Inl e
              | Inr mods \<Rightarrow> Inr (mmc\<lparr>modules := mods\<rparr>))"
    by blast
  show ?case
  proof (cases "place_modules conf ml (modules mm)")
    case (Inl e')
    with sec place_modules_error [OF Inl] show ?thesis
      by simp
  next
    case (Inr mods)
    from place_modules_any_conf [OF Inr, of c] Cons.prems(1) ml
    have "place_modules c (produced env configs) (modules (mmc\<lparr>modules := mods\<rparr>)) = Inl e"
      by (simp add: place_modules_append)
    from Cons.IH [OF this] Cons.prems(2) mmc
    have "\<exists>n. load env configs (mmc\<lparr>modules := mods\<rparr>) = Inl (AmbiguousInstantiationError n)"
      by (simp add: cache_agrees_modules)
    with sec Inr show ?thesis
      by simp
  qed
qed

lemma cache_agrees_new: "cache_agrees env ModuleManager_new"
  by (simp add: cache_agrees_def ModuleManager_new_def)

lemma place_module_equal_priority:
  assumes "e' \<in> set mods" and "key (fst e') = key (fst x)"
    and "getPriority (fst e') = getPriority (fst x)"
    and "distinct (map (key \<circ> fst) mods)"
  shows "place_module conf x mods = Inl (AmbiguousInstantiationError (conf_name conf))"
proof -
  have "(key \<circ> fst) e' \<in> (key \<circ> fst) ` set mods"
    using assms(1) by (rule imageI)
  then have "find (\<lambda>im. key (fst im) = key (fst x)) mods \<noteq> None"
    using assms(2) by (simp add: find_key_None)
  then obtain it where it: "find (\<lambda>im. key (fst im) = key (fst x)) mods = Some it"
    by auto
  from find_key_Some [OF it] assms(1,2) same_key_same_entry [OF assms(4), of it e']
  have "it = e'"
    by simp
  with it assms(3) show ?thesis
    by (simp add: place_module_def Let_def)
qed

lemma produced_name_type:
  "produced the_env [conf_B_name, conf_B_type] =
     [(\<lparr>getName = ''B'', getIdentifier = ''D1'', getPriority = 1\<rparr>, \<lparr>impl = 2, module_detector = 7\<rparr>),
      (\<lparr>getName = ''B'', getIdentifier = ''D1'', getPriority = 2\<rparr>, \<lparr>impl = 2, module_detector = 7\<rparr>),
      (\<lparr>getName = ''B'', getIdentifier = ''D2'', getPriority = 2\<rparr>, \<lparr>impl = 2, module_detector = 8\<rparr>)]"
  by (simp add: section_modules_def example_defs load_defs)

lemma produced_name_name:
  "produced the_env [conf_B_name, conf_B_name] =
     [(\<lparr>getName = ''B'', getIdentifier = ''D1'', getPriority = 1\<rparr>, \<lparr>impl = 2, module_detector = 7\<rparr>),
      (\<lparr>getName = ''B'', getIdentifier = ''D1'', getPriority = 1\<rparr>, \<lparr>impl = 2, module_detector = 7\<rparr>)]"
  by (simp add: section_modules_def example_defs load_defs)

lemma section_B_name:
  "section_modules the_env conf_B_name =
     Inr [(\<lparr>getName = ''B'', getIdentifier = ''D1'', getPriority = 1\<rparr>, \<lparr>impl = 2, module_detector = 7\<rparr>)]"
  by (simp add: section_modules_def example_defs load_defs)

subsection \<open>The instance kept for a key\<close>





lemma load_name_type_type:
  "load env_single [conf_B_name, conf_B_type, conf_B_type] ModuleManager_new = Inr mm_name_kept"
  by (simp add: env_single_def example_defs load_defs mm_name_kept_def)

lemma load_with_header:
  "load the_env [header_two_events, conf_A, conf_B_name] ModuleManager_new = Inr mm_header_loaded"
  by (simp add: header_two_events_def example_defs load_defs mm_header_loaded_def)

subsection \<open>When loading reports an ambiguity\<close>

lemma ambiguous_at_prefix:
  assumes "j < length ps"
  shows "ambiguous_at (ps @ qs) j = ambiguous_at ps j"
proof -
  have "(ps @ qs) ! i = ps ! i" if "i \<le> j" for i
    using that assms by (simp add: nth_append)
  then show ?thesis
    by (auto simp: ambiguous_at_def)
qed

lemma place_modules_ambiguous:
  assumes "j < length ps" and "ambiguous_at ps j"
  shows "\<exists>e. place_modules c ps [] = Inl e"
proof -
  let ?xs = "take j ps"
  let ?x = "ps ! j"
  from assms(2) obtain i where i: "i < j" "key (fst (ps ! i)) = key (fst ?x)"
    "getPriority (fst (ps ! i)) = getPriority (fst ?x)"
    and top: "\<forall>l<j. key (fst (ps ! l)) = key (fst ?x) \<longrightarrow>
      getPriority (fst ?x) \<le> getPriority (fst (ps ! l))"
    by (auto simp: ambiguous_at_def)
  have split: "ps = ?xs @ ?x # drop (Suc j) ps"
    using assms(1) by (rule id_take_nth_drop)
  show ?thesis
  proof (cases "place_modules c ?xs []")
    case (Inl e)
    then have "place_modules c (?xs @ ?x # drop (Suc j) ps) [] = Inl e"
      by (simp add: place_modules_append)
    with split show ?thesis
      by metis
  next
    case (Inr mods)
    from place_modules_result [OF Inr] have
      d: "distinct (map (key \<circ> fst) mods)" and sub: "set mods \<subseteq> set ?xs"
      and keys: "(key \<circ> fst) ` set mods = (key \<circ> fst) ` set ?xs"
      and low: "lowest mods (set ?xs)"
      by simp_all
    from i(1) assms(1) have i_in: "ps ! i \<in> set ?xs"
      by (metis in_set_conv_nth length_take less_trans min.absorb2 nat_less_le nth_take)
    then have "(key \<circ> fst) (ps ! i) \<in> (key \<circ> fst) ` set ?xs"
      by (rule imageI)
    then have "(key \<circ> fst) (ps ! i) \<in> (key \<circ> fst) ` set mods"
      unfolding keys .
    then obtain e' where "e' \<in> set mods" "(key \<circ> fst) (ps ! i) = (key \<circ> fst) e'"
      by (rule imageE)
    then have e': "e' \<in> set mods" "key (fst e') = key (fst (ps ! i))"
      by simp_all
    from low e' i_in have le: "getPriority (fst e') \<le> getPriority (fst (ps ! i))"
      unfolding lowest_def by metis
    from e'(1) sub have "e' \<in> set ?xs"
      by blast
    then obtain l where l: "l < j" "e' = ps ! l"
      by (auto simp: in_set_conv_nth)
    with top e'(2) i(2) have "getPriority (fst ?x) \<le> getPriority (fst e')"
      by simp
    with le i(3) have eq: "getPriority (fst e') = getPriority (fst ?x)"
      by simp
    from e'(2) i(2) have "key (fst e') = key (fst ?x)"
      by simp
    from place_module_equal_priority [OF e'(1) this eq d]
    have "place_modules c (?x # drop (Suc j) ps) mods =
        Inl (AmbiguousInstantiationError (conf_name c))"
      by simp
    with Inr have "place_modules c (?xs @ ?x # drop (Suc j) ps) [] =
        Inl (AmbiguousInstantiationError (conf_name c))"
      by (simp add: place_modules_append)
    with split show ?thesis
      by metis
  qed
qed

lemma place_modules_unambiguous:
  assumes "\<forall>j<length ps. \<not> ambiguous_at ps j"
  shows "\<exists>r. place_modules c ps [] = Inr r"
  using assms
proof (induction ps rule: rev_induct)
  case Nil
  then show ?case by simp
next
  case (snoc x ps)
  have "\<forall>j<length ps. \<not> ambiguous_at ps j"
  proof (intro allI impI)
    fix j
    assume j: "j < length ps"
    with snoc.prems have "\<not> ambiguous_at (ps @ [x]) j"
      by simp
    with j show "\<not> ambiguous_at ps j"
      by (simp add: ambiguous_at_prefix)
  qed
  from snoc.IH [OF this] obtain r where r: "place_modules c ps [] = Inr r"
    by blast
  from place_modules_result [OF r] have
    d: "distinct (map (key \<circ> fst) r)" and sub: "set r \<subseteq> set ps"
    and low: "lowest r (set ps)"
    by simp_all
  have "\<exists>r'. place_module c x r = Inr r'"
  proof (cases "find (\<lambda>im. key (fst im) = key (fst x)) r")
    case None
    then show ?thesis
      by (simp add: place_module_def Let_def)
  next
    case (Some it)
    from find_key_Some [OF Some] have it: "it \<in> set r" "key (fst it) = key (fst x)"
      by simp_all
    have "getPriority (fst it) \<noteq> getPriority (fst x)"
    proof
      assume eq: "getPriority (fst it) = getPriority (fst x)"
      from it(1) sub have "it \<in> set ps"
        by blast
      then obtain i where i: "i < length ps" "ps ! i = it"
        by (auto simp: in_set_conv_nth)
      have "ambiguous_at (ps @ [x]) (length ps)"
        unfolding ambiguous_at_def
      proof (intro conjI exI[of _ i] allI impI)
        show "i < length ps" by (rule i(1))
        show "key (fst ((ps @ [x]) ! i)) = key (fst ((ps @ [x]) ! length ps))"
          using i it(2) by (simp add: nth_append)
        show "getPriority (fst ((ps @ [x]) ! i)) = getPriority (fst ((ps @ [x]) ! length ps))"
          using i eq by (simp add: nth_append)
      next
        fix l
        assume l: "l < length ps"
          and k: "key (fst ((ps @ [x]) ! l)) = key (fst ((ps @ [x]) ! length ps))"
        then have "ps ! l \<in> set ps" "key (fst (ps ! l)) = key (fst it)"
          using it(2) by (simp_all add: nth_append)
        with low it(1) have "getPriority (fst it) \<le> getPriority (fst (ps ! l))"
          unfolding lowest_def by metis
        with eq l show "getPriority (fst ((ps @ [x]) ! length ps))
            \<le> getPriority (fst ((ps @ [x]) ! l))"
          by (simp add: nth_append)
      qed
      with snoc.prems show False
        by simp
    qed
    with Some show ?thesis
      by (simp add: place_module_def Let_def)
  qed
  then obtain r' where "place_module c x r = Inr r'"
    by blast
  with r show ?case
    by (simp add: place_modules_append)
qed

lemma load_succeeds_as_place:
  assumes "place_modules c (produced env configs) (modules mm) = Inr r"
    and "\<forall>conf \<in> set configs. \<exists>ml. section_modules env conf = Inr ml"
    and "cache_agrees env mm"
  shows "\<exists>mm'. load env configs mm = Inr mm'"
  using assms
proof (induction configs arbitrary: mm)
  case Nil
  then show ?case by simp
next
  case (Cons conf configs)
  from Cons.prems(2) obtain ml where ml: "section_modules env conf = Inr ml"
    by auto
  from load_section_as_place [OF ml Cons.prems(3)] obtain mmc where
    mmc: "cache_agrees env mmc"
    and sec: "load_section env conf mm =
             (case place_modules conf ml (modules mm) of
                Inl e \<Rightarrow> Inl e
              | Inr mods \<Rightarrow> Inr (mmc\<lparr>modules := mods\<rparr>))"
    by blast
  from Cons.prems(1) ml obtain mods where
    mods: "place_modules c ml (modules mm) = Inr mods"
    and rest: "place_modules c (produced env configs) mods = Inr r"
    by (auto simp: place_modules_append split: sum.splits)
  from place_modules_any_conf [OF mods, of conf] sec
  have one: "load_section env conf mm = Inr (mmc\<lparr>modules := mods\<rparr>)"
    by simp
  from rest have "place_modules c (produced env configs) (modules (mmc\<lparr>modules := mods\<rparr>)) = Inr r"
    by simp
  from Cons.IH [OF this] Cons.prems(2) mmc
  have "\<exists>mm'. load env configs (mmc\<lparr>modules := mods\<rparr>) = Inr mm'"
    by (simp add: cache_agrees_modules)
  with one show ?case
    by simp
qed

lemma section_B_type:
  "section_modules the_env conf_B_type =
     Inr [(\<lparr>getName = ''B'', getIdentifier = ''D1'', getPriority = 2\<rparr>, \<lparr>impl = 2, module_detector = 7\<rparr>),
          (\<lparr>getName = ''B'', getIdentifier = ''D2'', getPriority = 2\<rparr>, \<lparr>impl = 2, module_detector = 8\<rparr>)]"
  by (simp add: section_modules_def example_defs load_defs)

subsection \<open>The global configuration of a loaded manager\<close>

lemma load_library_global_config:
  "load_library env conf mm = Inr mmc \<Longrightarrow> global_config mmc = global_config mm"
  by (auto dest!: load_library_cases)

lemma load_section_global_config:
  "load_section env conf mm = Inr mm' \<Longrightarrow> global_config mm' = global_config mm"
  by (auto dest!: load_section_cache dest: load_library_global_config)

lemma load_global_config:
  "load env configs mm = Inr mm' \<Longrightarrow> global_config mm' = global_config mm"
  by (induction configs arbitrary: mm) (auto split: sum.splits dest: load_section_global_config)

text \<open>
  The driver with an event count \<open>n\<close> in \<open>global_config\<close>: the calls of \<open>schedule\<close> for
  \<open>n\<close> events, one after the other.
\<close>

lemma lifecycle_sequence:
  assumes "get_default from_string (global_config mm) ''number_of_events'' 1 = Inr n"
  shows "lifecycle from_string hook mm w = call_sequence hook (schedule (modules mm) (unat n)) w"
  using assms
  by (simp add: lifecycle_def init_def run_def finalize_def schedule_def call_sequence_append
      for_modules_sequence run_events_sequence split: prod.splits option.splits)

section \<open>The claims\<close>

subsection \<open>C1\<close>



subsection \<open>C2\<close>

text \<open>
  C2, as the code has it. Let every section's library load and its instances be created.
  \<open>load\<close> fails with \<open>AmbiguousInstantiationError\<close> when some produced instance has the
  key and the priority of an earlier one and no earlier instance of that key has a higher
  priority, and \<open>load\<close> completes when there is no such instance. In the loop, an incoming
  instance whose priority equals that of the instance registered under its key raises the
  error; an incoming instance with a lower priority than the registered one is discarded
  without error, whatever has been discarded before it.
\<close>

theorem equal_priority_ambiguous_or_discarded:
  assumes "\<forall>conf \<in> set configs. \<exists>ml. section_modules env conf = Inr ml"
  shows "((\<exists>j<length (produced env configs). ambiguous_at (produced env configs) j) \<longrightarrow>
            (\<exists>n. load env configs ModuleManager_new = Inl (AmbiguousInstantiationError n))) \<and>
         ((\<forall>j<length (produced env configs). \<not> ambiguous_at (produced env configs) j) \<longrightarrow>
            (\<exists>mm. load env configs ModuleManager_new = Inr mm)) \<and>
         (find (\<lambda>im. key (fst im) = key (fst x)) mods = Some it \<longrightarrow>
            getPriority (fst it) = getPriority (fst x) \<longrightarrow>
            place_module conf x mods = Inl (AmbiguousInstantiationError (conf_name conf))) \<and>
         (find (\<lambda>im. key (fst im) = key (fst x)) mods = Some it \<longrightarrow>
            getPriority (fst it) < getPriority (fst x) \<longrightarrow>
            place_module conf x mods = Inr mods)"
proof (intro conjI impI)
  assume "\<exists>j<length (produced env configs). ambiguous_at (produced env configs) j"
  then obtain j where "j < length (produced env configs)" "ambiguous_at (produced env configs) j"
    by blast
  from place_modules_ambiguous [OF this, of conf_A]
  obtain e where "place_modules conf_A (produced env configs) (modules ModuleManager_new) = Inl e"
    by (auto simp: ModuleManager_new_def)
  from load_fails_as_place [OF this assms cache_agrees_new]
  show "\<exists>n. load env configs ModuleManager_new = Inl (AmbiguousInstantiationError n)" .
next
  assume "\<forall>j<length (produced env configs). \<not> ambiguous_at (produced env configs) j"
  from place_modules_unambiguous [OF this, of conf_A]
  obtain r where "place_modules conf_A (produced env configs) (modules ModuleManager_new) = Inr r"
    by (auto simp: ModuleManager_new_def)
  from load_succeeds_as_place [OF this assms cache_agrees_new]
  show "\<exists>mm. load env configs ModuleManager_new = Inr mm" .
next
  assume "find (\<lambda>im. key (fst im) = key (fst x)) mods = Some it"
    and "getPriority (fst it) = getPriority (fst x)"
  then show "place_module conf x mods = Inl (AmbiguousInstantiationError (conf_name conf))"
    by (simp add: place_module_def Let_def)
next
  assume "find (\<lambda>im. key (fst im) = key (fst x)) mods = Some it"
    and "getPriority (fst it) < getPriority (fst x)"
  then show "place_module conf x mods = Inr mods"
    by (simp add: place_module_def Let_def)
qed

theorem equal_priority_ambiguous_or_discarded_witness:
  "ambiguous_at (produced the_env [conf_B_name, conf_B_name]) 1 \<and>
   load the_env [conf_B_name, conf_B_name] ModuleManager_new = Inl (AmbiguousInstantiationError ''B'') \<and>
   produced the_env [conf_B_name, conf_B_type] =
     [(\<lparr>getName = ''B'', getIdentifier = ''D1'', getPriority = 1\<rparr>, \<lparr>impl = 2, module_detector = 7\<rparr>),
      (\<lparr>getName = ''B'', getIdentifier = ''D1'', getPriority = 2\<rparr>, \<lparr>impl = 2, module_detector = 7\<rparr>),
      (\<lparr>getName = ''B'', getIdentifier = ''D2'', getPriority = 2\<rparr>, \<lparr>impl = 2, module_detector = 8\<rparr>)] \<and>
   \<not> ambiguous_at (produced the_env [conf_B_name, conf_B_type]) 0 \<and>
   \<not> ambiguous_at (produced the_env [conf_B_name, conf_B_type]) 1 \<and>
   \<not> ambiguous_at (produced the_env [conf_B_name, conf_B_type]) 2 \<and>
   load the_env [conf_B_name, conf_B_type] ModuleManager_new = Inr mm_B_loaded \<and>
   place_module conf_B_name
     (\<lparr>getName = ''B'', getIdentifier = ''D1'', getPriority = 1\<rparr>, \<lparr>impl = 2, module_detector = 7\<rparr>)
     [(\<lparr>getName = ''B'', getIdentifier = ''D1'', getPriority = 1\<rparr>, \<lparr>impl = 2, module_detector = 7\<rparr>)] =
     Inl (AmbiguousInstantiationError ''B'') \<and>
   place_module conf_B_type
     (\<lparr>getName = ''B'', getIdentifier = ''D1'', getPriority = 2\<rparr>, \<lparr>impl = 2, module_detector = 7\<rparr>)
     [(\<lparr>getName = ''B'', getIdentifier = ''D1'', getPriority = 1\<rparr>, \<lparr>impl = 2, module_detector = 7\<rparr>)] =
     Inr [(\<lparr>getName = ''B'', getIdentifier = ''D1'', getPriority = 1\<rparr>, \<lparr>impl = 2, module_detector = 7\<rparr>)]"
proof -
  let ?a = "(\<lparr>getName = ''B'', getIdentifier = ''D1'', getPriority = 1\<rparr>, \<lparr>impl = 2, module_detector = 7\<rparr>)"
  let ?b = "(\<lparr>getName = ''B'', getIdentifier = ''D1'', getPriority = 2\<rparr>, \<lparr>impl = 2, module_detector = 7\<rparr>)"
  have twice: "\<forall>conf \<in> set [conf_B_name, conf_B_name]. \<exists>ml. section_modules the_env conf = Inr ml"
    using section_B_name by simp
  have both: "\<forall>conf \<in> set [conf_B_name, conf_B_type]. \<exists>ml. section_modules the_env conf = Inr ml"
    using section_B_name section_B_type by simp
  have amb: "ambiguous_at (produced the_env [conf_B_name, conf_B_name]) 1"
    unfolding produced_name_name by (simp add: ambiguous_at_def)
  have not0: "\<not> ambiguous_at (produced the_env [conf_B_name, conf_B_type]) 0"
    and not1: "\<not> ambiguous_at (produced the_env [conf_B_name, conf_B_type]) 1"
    and not2: "\<not> ambiguous_at (produced the_env [conf_B_name, conf_B_type]) 2"
    unfolding produced_name_type by (simp_all add: ambiguous_at_def key_def numeral_2_eq_2 Ex_less_Suc All_less_Suc)
  have none: "\<forall>j<length (produced the_env [conf_B_name, conf_B_type]).
      \<not> ambiguous_at (produced the_env [conf_B_name, conf_B_type]) j"
  proof (intro allI impI)
    fix j
    assume "j < length (produced the_env [conf_B_name, conf_B_type])"
    then have "j = 0 \<or> j = 1 \<or> j = 2"
      unfolding produced_name_type by auto
    with not0 not1 not2 show "\<not> ambiguous_at (produced the_env [conf_B_name, conf_B_type]) j"
      by auto
  qed
  have some: "\<exists>j<length (produced the_env [conf_B_name, conf_B_name]).
      ambiguous_at (produced the_env [conf_B_name, conf_B_name]) j"
    using amb by (intro exI[of _ 1]) (simp add: produced_name_name del: produced.simps)
  note fails = equal_priority_ambiguous_or_discarded [OF twice, where x = ?a and mods = "[?a]"
      and it = ?a and conf = conf_B_name]
  note completes = equal_priority_ambiguous_or_discarded [OF both, where x = ?b and mods = "[?a]"
      and it = ?a and conf = conf_B_type]
  have failed: "load the_env [conf_B_name, conf_B_name] ModuleManager_new =
      Inl (AmbiguousInstantiationError ''B'')"
    by (simp add: example_defs load_defs)
  from fails completes some none amb not0 not1 not2 failed load_B_twice produced_name_type
  show ?thesis
    by (simp add: key_def conf_B_name_def del: produced.simps load.simps)
qed

text \<open>
  C2, as stated, fails: with \<open>D1\<close> the only detector of type \<open>T\<close>, the second and the
  third section both produce \<open>(B, D1)\<close> with priority value 2, the first section has
  registered it by name with value 1, and \<open>load\<close> completes: both duplicates are discarded
  without an error.
\<close>

theorem lower_duplicates_not_reported:
  "createModulesPerDetector env_single conf_B_name lib_B =
     Inr [(\<lparr>getName = ''B'', getIdentifier = ''D1'', getPriority = 1\<rparr>, \<lparr>impl = 2, module_detector = 7\<rparr>)] \<and>
   createModulesPerDetector env_single conf_B_type lib_B =
     Inr [(\<lparr>getName = ''B'', getIdentifier = ''D1'', getPriority = 2\<rparr>, \<lparr>impl = 2, module_detector = 7\<rparr>)] \<and>
   load env_single [conf_B_name, conf_B_type, conf_B_type] ModuleManager_new = Inr mm_name_kept"
  by (simp add: env_single_def example_defs load_defs mm_name_kept_def)

subsection \<open>C3\<close>

text \<open>
  C3, on the code. For every registry that \<open>load\<close> produces, \<open>run\<close> is one pass over the
  instances and the lifecycle is the \<open>init\<close> of every instance, one \<open>run\<close> of every
  instance and the \<open>finalize\<close> of every instance, in registry order, whatever event count
  the configuration sets: the constructor leaves \<open>global_config_\<close> empty, \<open>load\<close> skips the
  section without name and never assigns the member, so \<open>run\<close> reads the default 1. The
  order of the claim holds; its \<open>N\<close> events are run only for \<open>N = 1\<close>.
\<close>

theorem loaded_registry_runs_one_event:
  assumes "load env configs ModuleManager_new = Inr mm"
  shows "run from_string hook mm w = for_modules hook Run (modules mm) w \<and>
         lifecycle from_string hook mm w = call_sequence hook (schedule (modules mm) 1) w"
proof -
  from load_global_config [OF assms]
  have none: "conf_values (global_config mm) ''number_of_events'' = None"
    by (simp add: ModuleManager_new_def)
  then have one: "get_default from_string (global_config mm) ''number_of_events'' 1 = Inr 1"
    by (simp add: get_default_def)
  have "run from_string hook mm w = for_modules hook Run (modules mm) w"
    using none by (simp add: run_def get_default_def run_events_sequence for_modules_sequence)
  moreover have "lifecycle from_string hook mm w = call_sequence hook (schedule (modules mm) 1) w"
    using lifecycle_sequence [OF one, of hook w] by simp
  ultimately show ?thesis
    by simp
qed

theorem loaded_registry_runs_one_event_witness:
  "load the_env [header_two_events, conf_A, conf_B_name] ModuleManager_new = Inr mm_header_loaded \<and>
   conf_values header_two_events ''number_of_events'' = Some [''2''] \<and>
   read_uint [''2''] = Inr 2 \<and>
   lifecycle read_uint rec_hook mm_header_loaded \<lparr>log_section = ''main'', user = []\<rparr> =
     (None, \<lparr>log_section = ''main'',
             user = [(Init, 1), (Init, 2), (Run, 1), (Run, 2), (Finalize, 1), (Finalize, 2)]\<rparr>)"
  using load_with_header
    loaded_registry_runs_one_event [OF load_with_header, of read_uint rec_hook
      "\<lparr>log_section = ''main'', user = []\<rparr>"]
  by (simp add: schedule_def mm_header_loaded_def call_module_def rec_hook_def
      header_two_events_def read_uint_def del: load.simps)

subsection \<open>C4\<close>



subsection \<open>C5\<close>

text \<open>
  C5, as the code has it. For a per-detector section with both a \<open>name\<close> and a \<open>type\<close>
  array that is created without error, the identifiers of the returned instances are: one
  with priority 1 for every entry of the \<open>name\<close> array, in the array's order, followed
  by one with priority 2 for every detector of a listed type whose name is not in the
  \<open>name\<close> array, type by type. So the type expansion skips every target the \<open>name\<close>
  array claims; and when no name and no type is listed twice (and the detectors have
  different names) no target gets two instances from the section.
\<close>

theorem name_entries_exclude_type_entries:
  assumes "has conf ''name''" and "has conf ''type''"
    and "createModulesPerDetector env conf lib = Inr ml"
  shows "map fst ml =
           map (\<lambda>n. \<lparr>getName = conf_name conf, getIdentifier = n, getPriority = 1\<rparr>)
             (getArray conf ''name'') @
           map (\<lambda>d. \<lparr>getName = conf_name conf, getIdentifier = det_name d, getPriority = 2\<rparr>)
             (filter (\<lambda>d. det_name d \<notin> set (getArray conf ''name''))
                (concat (map (getDetectorsByType (geo_manager env)) (getArray conf ''type'')))) \<and>
         (distinct (getArray conf ''name'') \<and> distinct (getArray conf ''type'') \<and>
          distinct (map det_name (geo_manager env)) \<longrightarrow>
            distinct (map (getIdentifier \<circ> fst) ml))"
proof -
  let ?names = "getArray conf ''name''"
  let ?dets = "filter (\<lambda>d. det_name d \<notin> set ?names)
                (concat (map (getDetectorsByType (geo_manager env)) (getArray conf ''type'')))"
  from assms obtain g l1 l2 where
    l1: "create_by_name (geo_manager env) conf g ?names = Inr l1"
    and l2: "create_by_type (geo_manager env) conf g ?names (getArray conf ''type'') = Inr l2"
    and ml: "ml = l1 @ l2"
    by (auto simp: createModulesPerDetector_def Let_def split: option.splits sum.splits)
  have ids: "map fst ml =
      map (\<lambda>n. \<lparr>getName = conf_name conf, getIdentifier = n, getPriority = 1\<rparr>) ?names @
      map (\<lambda>d. \<lparr>getName = conf_name conf, getIdentifier = det_name d, getPriority = 2\<rparr>) ?dets"
    using create_by_name_ids [OF l1] create_by_type_ids [OF l2] ml by simp
  have targets: "map (getIdentifier \<circ> fst) ml = ?names @ map det_name ?dets"
  proof -
    have "map (getIdentifier \<circ> fst) ml = map getIdentifier (map fst ml)"
      by simp
    also have "\<dots> = ?names @ map det_name ?dets"
      unfolding ids by (simp add: comp_def)
    finally show ?thesis .
  qed
  have "distinct (map (getIdentifier \<circ> fst) ml)"
    if "distinct ?names" and "distinct (getArray conf ''type'')"
      and "distinct (map det_name (geo_manager env))"
  proof -
    from distinct_by_type [OF that(3) that(2)]
    have "distinct (map det_name ?dets)"
      by (simp add: distinct_map_filter)
    with that(1) show ?thesis
      unfolding targets by auto
  qed
  with ids show ?thesis
    by blast
qed

theorem name_entries_exclude_type_entries_witness:
  "has conf_B_both ''name'' \<and> has conf_B_both ''type'' \<and>
   createModulesPerDetector the_env conf_B_both lib_B =
     Inr [(\<lparr>getName = ''B'', getIdentifier = ''D1'', getPriority = 1\<rparr>,
           \<lparr>impl = 2, module_detector = 7\<rparr>),
          (\<lparr>getName = ''B'', getIdentifier = ''D2'', getPriority = 2\<rparr>,
           \<lparr>impl = 2, module_detector = 8\<rparr>)] \<and>
   distinct (getArray conf_B_both ''name'') \<and> distinct (getArray conf_B_both ''type'') \<and>
   distinct (map det_name (geo_manager the_env)) \<and>
   distinct (map (getIdentifier \<circ> fst)
     [(\<lparr>getName = ''B'', getIdentifier = ''D1'', getPriority = 1\<rparr>,
       \<lparr>impl = 2, module_detector = 7\<rparr>),
      (\<lparr>getName = ''B'', getIdentifier = ''D2'', getPriority = 2\<rparr>,
       \<lparr>impl = 2, module_detector = 8\<rparr>)])"
proof -
  have h1: "has conf_B_both ''name''" and h2: "has conf_B_both ''type''"
    by (simp_all add: has_def conf_B_both_def)
  have c: "createModulesPerDetector the_env conf_B_both lib_B =
     Inr [(\<lparr>getName = ''B'', getIdentifier = ''D1'', getPriority = 1\<rparr>,
           \<lparr>impl = 2, module_detector = 7\<rparr>),
          (\<lparr>getName = ''B'', getIdentifier = ''D2'', getPriority = 2\<rparr>,
           \<lparr>impl = 2, module_detector = 8\<rparr>)]"
    by (simp add: createModulesPerDetector_def the_env_def conf_B_both_def lib_B_def has_def
        getArray_def getDetector_def getDetectorsByType_def det_D1_def det_D2_def
        instantiate_def good_generator_def check_module_detector_def)
  have d: "distinct (getArray conf_B_both ''name'')" "distinct (getArray conf_B_both ''type'')"
    "distinct (map det_name (geo_manager the_env))"
    by (simp_all add: getArray_def conf_B_both_def the_env_def det_D1_def det_D2_def)
  from name_entries_exclude_type_entries [OF h1 h2 c] h1 h2 c d
  show ?thesis
    by simp
qed

text \<open>
  C5, as stated, fails for a \<open>name\<close> array that lists a target twice: the section
  \<open>name = D1 D1\<close>, \<open>type = T\<close> yields two instances for \<open>D1\<close>, both created from the
  \<open>name\<close> entry.
\<close>

theorem repeated_name_two_instances:
  "createModulesPerDetector the_env conf_B_twice lib_B =
     Inr [(\<lparr>getName = ''B'', getIdentifier = ''D1'', getPriority = 1\<rparr>,
           \<lparr>impl = 2, module_detector = 7\<rparr>),
          (\<lparr>getName = ''B'', getIdentifier = ''D1'', getPriority = 1\<rparr>,
           \<lparr>impl = 2, module_detector = 7\<rparr>),
          (\<lparr>getName = ''B'', getIdentifier = ''D2'', getPriority = 2\<rparr>,
           \<lparr>impl = 2, module_detector = 8\<rparr>)]"
  by (simp add: createModulesPerDetector_def the_env_def conf_B_twice_def lib_B_def has_def
      getArray_def getDetector_def getDetectorsByType_def det_D1_def det_D2_def
      instantiate_def good_generator_def check_module_detector_def)

subsection \<open>C6\<close>

text \<open>
  C6 (on the messenger as modelled from the spec). A dispatch that succeeds has delivered
  the payload to exactly the matching delegates and left every other delegate as it was:
  for a message without target scope, the delegates of the message's type with the
  wildcard scope; for a message with target scope \<open>X\<close>, the delegates of the message's type
  with the wildcard scope or the scope \<open>X\<close>. A delegate of another type or of another name
  is not invoked.
\<close>

theorem dispatch_reaches_matching_scopes:
  assumes "dispatchMessage msg ds = Inr ds'"
  shows "(msg_scope msg = None \<longrightarrow>
            ds' = map (\<lambda>d. if message_type_tag d = msg_type msg \<and> target_scope d = []
                           then delivered (payload msg) d else d) ds) \<and>
         (\<forall>X. msg_scope msg = Some X \<longrightarrow>
            ds' = map (\<lambda>d. if message_type_tag d = msg_type msg \<and>
                                (target_scope d = [] \<or> target_scope d = X)
                           then delivered (payload msg) d else d) ds)"
  using dispatch_Inr [OF assms] by (auto simp: matches_def)

theorem dispatch_reaches_matching_scopes_witness:
  "dispatchMessage msg_unscoped four_delegates =
     Inr [\<lparr>message_type_tag = 5, target_scope = [], owner = 1, flags = {}, store = MultiSlot [30]\<rparr>,
          \<lparr>message_type_tag = 5, target_scope = ''D1'', owner = 2, flags = {}, store = MultiSlot []\<rparr>,
          \<lparr>message_type_tag = 5, target_scope = ''D2'', owner = 3, flags = {}, store = MultiSlot []\<rparr>,
          \<lparr>message_type_tag = 6, target_scope = [], owner = 4, flags = {}, store = MultiSlot []\<rparr>] \<and>
   dispatchMessage msg_a four_delegates =
     Inr [\<lparr>message_type_tag = 5, target_scope = [], owner = 1, flags = {}, store = MultiSlot [10]\<rparr>,
          \<lparr>message_type_tag = 5, target_scope = ''D1'', owner = 2, flags = {}, store = MultiSlot [10]\<rparr>,
          \<lparr>message_type_tag = 5, target_scope = ''D2'', owner = 3, flags = {}, store = MultiSlot []\<rparr>,
          \<lparr>message_type_tag = 6, target_scope = [], owner = 4, flags = {}, store = MultiSlot []\<rparr>]"
proof -
  have u: "dispatchMessage msg_unscoped four_delegates =
     Inr [\<lparr>message_type_tag = 5, target_scope = [], owner = 1, flags = {}, store = MultiSlot [30]\<rparr>,
          \<lparr>message_type_tag = 5, target_scope = ''D1'', owner = 2, flags = {}, store = MultiSlot []\<rparr>,
          \<lparr>message_type_tag = 5, target_scope = ''D2'', owner = 3, flags = {}, store = MultiSlot []\<rparr>,
          \<lparr>message_type_tag = 6, target_scope = [], owner = 4, flags = {}, store = MultiSlot []\<rparr>]"
    by (simp add: four_delegates_def bindMulti_def msg_unscoped_def matches_def invoke_def)
  have a: "dispatchMessage msg_a four_delegates =
     Inr [\<lparr>message_type_tag = 5, target_scope = [], owner = 1, flags = {}, store = MultiSlot [10]\<rparr>,
          \<lparr>message_type_tag = 5, target_scope = ''D1'', owner = 2, flags = {}, store = MultiSlot [10]\<rparr>,
          \<lparr>message_type_tag = 5, target_scope = ''D2'', owner = 3, flags = {}, store = MultiSlot []\<rparr>,
          \<lparr>message_type_tag = 6, target_scope = [], owner = 4, flags = {}, store = MultiSlot []\<rparr>]"
    by (simp add: four_delegates_def bindMulti_def msg_a_def matches_def invoke_def)
  from dispatch_reaches_matching_scopes [OF u] dispatch_reaches_matching_scopes [OF a] u a
  show ?thesis
    by simp
qed

subsection \<open>C7\<close>

text \<open>
  C7, as the code has it. In every phase the driver sets the section
  \<open>prefix @ name\<close> of the instance before the hook is called. When the hook returns, the
  section that was current before the call is put back, so a phase that ends without an
  exception leaves the section as it found it. When the hook throws, the exception leaves
  the loop at the call: the world is the one the hook left and the section is not put
  back.
\<close>

theorem section_restored_on_return:
  "(hook ph (snd md) (w\<lparr>log_section := section_prefix ph @ getName (fst md)\<rparr>) = (None, w') \<longrightarrow>
      call_module hook ph md w = (None, w'\<lparr>log_section := log_section w\<rparr>)) \<and>
   (hook ph (snd md) (w\<lparr>log_section := section_prefix ph @ getName (fst md)\<rparr>) = (Some e, w') \<longrightarrow>
      call_module hook ph md w = (Some e, w')) \<and>
   (for_modules hook ph mods w = (None, w'') \<longrightarrow> log_section w'' = log_section w)"
  by (auto simp: call_module_def Let_def dest: for_modules_returns)

theorem section_restored_on_return_witness:
  "call_module rec_hook Run (hd two_modules) \<lparr>log_section = ''main'', user = []\<rparr> =
     (None, \<lparr>log_section = ''main'', user = [(Run, 1)]\<rparr>) \<and>
   call_module fail_hook Run (hd two_modules) \<lparr>log_section = ''main'', user = ()\<rparr> =
     (Some (ModuleException ''failed''), \<lparr>log_section = ''R:A'', user = ()\<rparr>) \<and>
   log_section (snd (for_modules rec_hook Finalize two_modules
     \<lparr>log_section = ''main'', user = []\<rparr>)) = ''main''"
  using section_restored_on_return [where hook = rec_hook and ph = Run and md = "hd two_modules"
      and w = "\<lparr>log_section = ''main'', user = []\<rparr>"
      and w' = "\<lparr>log_section = ''R:A'', user = [(Run, 1)]\<rparr>" and mods = "[]"]
    section_restored_on_return [where hook = fail_hook and ph = Run and md = "hd two_modules"
      and w = "\<lparr>log_section = ''main'', user = ()\<rparr>"
      and w' = "\<lparr>log_section = ''R:A'', user = ()\<rparr>"
      and e = "ModuleException ''failed''" and mods = "[]"]
    section_restored_on_return [where hook = rec_hook and ph = Finalize
      and w = "\<lparr>log_section = ''main'', user = []\<rparr>"
      and w'' = "\<lparr>log_section = ''main'', user = [(Finalize, 1), (Finalize, 2)]\<rparr>"
      and mods = two_modules]
  by (simp add: two_modules_def rec_hook_def fail_hook_def call_module_def)

text \<open>
  C7, as stated, fails: with a hook that throws, \<open>init\<close> ends with the section of the
  failing instance, \<open>I:A\<close>, and not with the section \<open>main\<close> that was current before the
  call.
\<close>

theorem section_not_restored_on_throw:
  "init fail_hook mm_default \<lparr>log_section = ''main'', user = ()\<rparr> =
     (Some (ModuleException ''failed''), \<lparr>log_section = ''I:A'', user = ()\<rparr>)"
  by (simp add: init_def mm_default_def two_modules_def call_module_def fail_hook_def)

subsection \<open>C8\<close>

text \<open>
  C8. Once a load request for a section's library has succeeded, the library is in
  \<open>loadedLibraries\<close>, and every later request for a section of the same name returns with
  the state unchanged: the cached handle is used and \<open>dlopen\<close> is not called again. The
  first request, for a library not yet cached, caches the handle \<open>dlopen\<close> returns and
  makes that one call. \<open>load\<close> never removes a cached handle, and over a whole \<open>load\<close>
  from a new manager the calls of \<open>dlopen\<close> are pairwise different, one per named library.
\<close>

theorem library_loaded_once:
  "(load_library env conf mm = Inr mmc \<longrightarrow> conf_name conf' = conf_name conf \<longrightarrow>
      (\<exists>lib. loadedLibraries mmc (libName_of env conf) = Some lib) \<and>
      load_library env conf' mmc = Inr mmc) \<and>
   (loadedLibraries mm (libName_of env conf) = None \<longrightarrow> load_library env conf mm = Inr mmc \<longrightarrow>
      loadedLibraries mmc (libName_of env conf) = dlopen env (fullLibPath_of env conf) \<and>
      dlopen_calls mmc = dlopen_calls mm @ [fullLibPath_of env conf]) \<and>
   (load env configs mm = Inr mm' \<longrightarrow> loadedLibraries mm n = Some lib \<longrightarrow>
      loadedLibraries mm' n = Some lib) \<and>
   (load env configs ModuleManager_new = Inr mm' \<longrightarrow>
      distinct (dlopen_calls mm') \<and>
      set (dlopen_calls mm') = fullLibPath_of env ` {c \<in> set configs. conf_name c \<noteq> []})"
proof (intro conjI impI)
  assume a: "load_library env conf mm = Inr mmc" and b: "conf_name conf' = conf_name conf"
  from load_library_cases [OF a]
  show c: "\<exists>lib. loadedLibraries mmc (libName_of env conf) = Some lib"
    by auto
  from b have "libName_of env conf' = libName_of env conf"
    by (simp add: libName_of_def)
  with c show "load_library env conf' mmc = Inr mmc"
    by (auto simp: load_library_def Let_def)
next
  assume "loadedLibraries mm (libName_of env conf) = None" "load_library env conf mm = Inr mmc"
  then show "loadedLibraries mmc (libName_of env conf) = dlopen env (fullLibPath_of env conf)"
    "dlopen_calls mmc = dlopen_calls mm @ [fullLibPath_of env conf]"
    by (auto dest!: load_library_cases)
next
  assume "load env configs mm = Inr mm'" "loadedLibraries mm n = Some lib"
  then show "loadedLibraries mm' n = Some lib"
    by (rule load_keeps)
next
  assume a: "load env configs ModuleManager_new = Inr mm'"
  have "calls_match_cache env ModuleManager_new"
    by (simp add: calls_match_cache_def ModuleManager_new_def)
  from load_calls [OF a this] load_dom [OF a]
  show "distinct (dlopen_calls mm')"
    "set (dlopen_calls mm') = fullLibPath_of env ` {c \<in> set configs. conf_name c \<noteq> []}"
    by (auto simp: calls_match_cache_def ModuleManager_new_def fullLibPath_of_def)
qed


theorem library_loaded_once_witness:
  "load_library the_env conf_A ModuleManager_new = Inr mm_A_loaded \<and>
   loadedLibraries mm_A_loaded ''libAllpixModuleA.so'' = Some lib_A \<and>
   dlopen_calls mm_A_loaded = [''/opt/lib/libAllpixModuleA.so''] \<and>
   load_library the_env conf_A mm_A_loaded = Inr mm_A_loaded \<and>
   load the_env [conf_B_name] mm_A_loaded = Inr mm_AB_loaded \<and>
   loadedLibraries mm_AB_loaded ''libAllpixModuleA.so'' = Some lib_A \<and>
   load the_env [conf_B_name, conf_B_type] ModuleManager_new = Inr mm_B_loaded \<and>
   dlopen_calls mm_B_loaded = [''/opt/lib/libAllpixModuleB.so'']"
proof -
  have none: "loadedLibraries ModuleManager_new (libName_of the_env conf_A) = None"
    by (simp add: ModuleManager_new_def)
  have cached: "loadedLibraries mm_A_loaded ''libAllpixModuleA.so'' = Some lib_A"
    by (simp add: mm_A_loaded_def)
  from library_loaded_once [where env = the_env and conf = conf_A and conf' = conf_A
      and mm = ModuleManager_new and mmc = mm_A_loaded
      and configs = "[conf_B_name, conf_B_type]" and mm' = mm_B_loaded]
    library_loaded_once [where env = the_env and mm = mm_A_loaded
      and configs = "[conf_B_name]" and mm' = mm_AB_loaded
      and n = "''libAllpixModuleA.so''" and lib = lib_A]
    load_A_first load_B_twice load_B_after_A none cached
  show ?thesis
    by (simp add: mm_A_loaded_def mm_B_loaded_def libName_of_def the_env_def conf_A_def)
qed

subsection \<open>C9\<close>

text \<open>
  C9. \<open>check_module_detector\<close> fails with \<open>InvalidModuleStateException\<close> (the spec's
  \<open>InvalidModuleBinding\<close>) when the module reports another detector than the requested
  one and passes without error when it reports the requested one. So does every
  per-target instantiation: with a generator that returns module \<open>m\<close> for the detector,
  the instantiation fails with that exception when \<open>m\<close> reports another detector, and
  yields the instance otherwise; and every instance that \<open>createModulesPerDetector\<close>
  returns is bound to the target its identifier names.
\<close>

theorem module_binding_checked:
  "(module_detector m \<noteq> d \<longrightarrow>
      (\<exists>msg. check_module_detector n m d = Inl (InvalidModuleStateException msg))) \<and>
   (module_detector m = d \<longrightarrow> check_module_detector n m d = Inr ()) \<and>
   (generator conf (Some det) = Inr m \<longrightarrow>
      (module_detector m \<noteq> det_addr det \<longrightarrow>
         (\<exists>msg. instantiate conf generator det p = Inl (InvalidModuleStateException msg))) \<and>
      (module_detector m = det_addr det \<longrightarrow>
         instantiate conf generator det p =
           Inr (\<lparr>getName = conf_name conf, getIdentifier = det_name det, getPriority = p\<rparr>, m))) \<and>
   (createModulesPerDetector env conf lib = Inr ml \<longrightarrow>
      (\<forall>im \<in> set ml. bound_in (geo_manager env) im))"
  by (auto simp: check_module_detector_def instantiate_def Let_def
      dest: createModulesPerDetector_bound)

theorem module_binding_checked_witness:
  "(\<exists>msg. instantiate conf_B_name bad_generator det_D1 1 = Inl (InvalidModuleStateException msg)) \<and>
   instantiate conf_B_name (good_generator 2) det_D1 1 =
     Inr (\<lparr>getName = ''B'', getIdentifier = ''D1'', getPriority = 1\<rparr>,
          \<lparr>impl = 2, module_detector = 7\<rparr>) \<and>
   createModulesPerDetector the_env conf_B_name lib_B =
     Inr [(\<lparr>getName = ''B'', getIdentifier = ''D1'', getPriority = 1\<rparr>,
          \<lparr>impl = 2, module_detector = 7\<rparr>)] \<and>
   bound_in (geo_manager the_env) (\<lparr>getName = ''B'', getIdentifier = ''D1'', getPriority = 1\<rparr>,
          \<lparr>impl = 2, module_detector = 7\<rparr>)"
proof -
  have c: "createModulesPerDetector the_env conf_B_name lib_B =
     Inr [(\<lparr>getName = ''B'', getIdentifier = ''D1'', getPriority = 1\<rparr>,
          \<lparr>impl = 2, module_detector = 7\<rparr>)]"
    by (simp add: createModulesPerDetector_def the_env_def conf_B_name_def lib_B_def has_def
        getArray_def getDetector_def det_D1_def det_D2_def instantiate_def good_generator_def
        check_module_detector_def)
  from module_binding_checked [where m = "\<lparr>impl = 9, module_detector = 0\<rparr>" and d = 7
      and generator = bad_generator and conf = conf_B_name and det = det_D1 and p = 1
      and env = the_env and lib = lib_B
      and ml = "[(\<lparr>getName = ''B'', getIdentifier = ''D1'', getPriority = 1\<rparr>,
          \<lparr>impl = 2, module_detector = 7\<rparr>)]"]
    module_binding_checked [where m = "\<lparr>impl = 2, module_detector = 7\<rparr>" and d = 7
      and generator = "good_generator 2" and conf = conf_B_name and det = det_D1 and p = 1
      and ml = "[]"]
    c
  show ?thesis
    by (simp add: bad_generator_def good_generator_def det_D1_def conf_B_name_def)
qed

subsection \<open>C10\<close>

text \<open>
  C10. When the global configuration has no key \<open>number_of_events\<close>, \<open>run\<close> is one pass of
  the loop over the instances: one event, the \<open>run\<close> hook of every live instance called
  once, in registry order (up to the first exception).
\<close>

theorem run_default_single_event:
  assumes "conf_values (global_config mm) ''number_of_events'' = None"
  shows "run from_string hook mm w = for_modules hook Run (modules mm) w"
  using assms
  by (simp add: run_def get_default_def run_events_sequence for_modules_sequence)

theorem run_default_single_event_witness:
  "conf_values (global_config mm_default) ''number_of_events'' = None \<and>
   run read_uint rec_hook mm_default \<lparr>log_section = ''main'', user = []\<rparr> =
     (None, \<lparr>log_section = ''main'', user = [(Run, 1), (Run, 2)]\<rparr>)"
proof -
  have none: "conf_values (global_config mm_default) ''number_of_events'' = None"
    by (simp add: mm_default_def ModuleManager_new_def)
  show ?thesis
    using none run_default_single_event [OF none, of read_uint rec_hook
        "\<lparr>log_section = ''main'', user = []\<rparr>"]
    by (simp add: mm_default_def two_modules_def call_module_def rec_hook_def)
qed

end
